theory Spec2Isabelle
  imports Complex_Main "HOL-Library.Product_Lexorder" "HOL-Library.Char_ord" "HOL-Library.List_Lexorder"
begin

section \<open>Data model\<close>

text \<open>
  The ledger engine keeps three collections: the chart of accounts, the journals and the
  ledger lines (transactions). A collection is modelled as the list of its documents in
  insertion order. Object identifiers are natural numbers handed out by a counter, so that
  ascending identifier order is insertion order. Dates are milliseconds since the epoch.

  Amounts are JavaScript numbers in the source, binary floating point. The model takes an
  amount to be the decimal number it stands for, an exact rational; the comparisons, the
  sums and the rounding function are the ones of the source, computed on these. On the
  amounts of a ledger the binary error is far below a cent, so the two agree wherever so
  small an error cannot change a result: on whole numbers of cents, and on every amount
  that does not lie next to a half-cent point, where rounding to the cent could go either
  way. The properties that depend on rounding are stated for such amounts. Open attribute
  bags (\<open>extra\<close>, \<open>meta\<close>) are
  association lists of strings. Error messages are dropped, the error class is kept.
  The storage layer never fails in the model, so the \<open>DatabaseError\<close> wrapping of
  \<open>execute\<close> is the identity.
\<close>

type_synonym oid = nat
type_synonym date = int
type_synonym attrs = "(string \<times> string) list"

datatype error = ValidationError | AccountNotFoundError | DoubleEntryError | DatabaseError | PlainError

datatype AccountType = TAsset | TLiability | TEquity | TIncome | TExpense | TContra

datatype AccountParentGroup = GAsset | GLiability | GEquity | GIncome | GExpense

datatype AccountOrigin = systemSeeded | dynamicSystem | userCreated

record Account =
  a_id :: oid
  a_key :: string
  a_code :: string
  a_name :: string
  a_type :: AccountType
  a_parentGroup :: AccountParentGroup
  a_group :: string
  a_origin :: "AccountOrigin option"
  a_isActive :: bool
  a_parentAccountKey :: "string option"
  a_extra :: attrs
  a_createdAt :: date
  a_updatedAt :: date

record Journal =
  j_id :: oid
  j_memo :: string
  j_datetime :: date
  j_referenceType :: "string option"
  j_referenceId :: "string option"
  j_voided :: bool
  j_voidReason :: "string option"
  j_createdAt :: date
  j_updatedAt :: date

record TransactionLine =
  t_id :: oid
  t_journalId :: oid
  t_accountKey :: string
  t_accountCode :: string
  t_debit :: rat
  t_credit :: rat
  t_meta :: "attrs option"
  t_datetime :: date
  t_voided :: bool
  t_createdAt :: date
  t_updatedAt :: date

record store =
  acct_accounts :: "Account list"
  acct_journals :: "Journal list"
  acct_transactions :: "TransactionLine list"
  next_oid :: oid

record TransactionLineInput =
  li_accountKey :: string
  li_debit :: "rat option"
  li_credit :: "rat option"
  li_meta :: "attrs option"

record PostJournalInput =
  pj_memo :: "string option"
  pj_datetime :: "date option"
  pj_referenceType :: "string option"
  pj_referenceId :: "string option"
  pj_lines :: "TransactionLineInput list option"

record PostJournalResult =
  r_journal :: Journal
  r_transactions :: "TransactionLine list"

section \<open>Utilities\<close>

text \<open>JavaScript truthiness of an optional string: absent and empty are both falsy.\<close>

definition truthy :: "string option \<Rightarrow> bool" where
  "truthy v = (case v of None \<Rightarrow> False | Some s \<Rightarrow> s \<noteq> [])"

text \<open>\<open>x || 0\<close> on an optional amount.\<close>

definition or0 :: "rat option \<Rightarrow> rat" where
  "or0 v = (case v of None \<Rightarrow> 0 | Some x \<Rightarrow> x)"

definition EPSILON :: rat where
  "EPSILON = 1 / 2 ^ 52"

text \<open>\<open>Math.round\<close> rounds to the nearest integer, a tie towards plus infinity.\<close>

definition Math_round :: "rat \<Rightarrow> rat" where
  "Math_round x = of_int \<lfloor>x + 1 / 2\<rfloor>"

definition round_num :: "rat \<Rightarrow> rat" where
  "round_num num = Math_round ((num + EPSILON) * 100) / 100"

text \<open>
  \<open>findOneAndUpdate\<close> changes the first document that matches and returns that
  document as it was before the change, or nothing when no document matches (the
  result the source tests with \<open>!result\<close>). \<open>updateMany\<close> changes every document that
  matches.
\<close>

fun findOneAndUpdate :: "('a \<Rightarrow> bool) \<Rightarrow> ('a \<Rightarrow> 'a) \<Rightarrow> 'a list \<Rightarrow> 'a option \<times> 'a list" where
  "findOneAndUpdate P f [] = (None, [])"
| "findOneAndUpdate P f (x # xs) =
     (if P x then (Some x, f x # xs)
      else (case findOneAndUpdate P f xs of (r, ys) \<Rightarrow> (r, x # ys)))"

definition updateMany :: "('a \<Rightarrow> bool) \<Rightarrow> ('a \<Rightarrow> 'a) \<Rightarrow> 'a list \<Rightarrow> 'a list" where
  "updateMany P f xs = map (\<lambda>x. if P x then f x else x) xs"

section \<open>Journal posting engine\<close>

text \<open>Adding to a JavaScript \<open>Set\<close>, which keeps insertion order.\<close>

definition set_add :: "'a list \<Rightarrow> 'a \<Rightarrow> 'a list" where
  "set_add ks k = (if k \<in> set ks then ks else ks @ [k])"

text \<open>
  The \<open>forEach\<close> of \<open>postJournal\<close>: the per-line checks, the two running totals and the
  set of account keys. The first line that fails a check ends the loop with its error.
\<close>

fun check_lines ::
  "TransactionLineInput list \<Rightarrow> rat \<Rightarrow> rat \<Rightarrow> string list \<Rightarrow> error + (rat \<times> rat \<times> string list)" where
  "check_lines [] totalDebit totalCredit accountKeys = Inr (totalDebit, totalCredit, accountKeys)"
| "check_lines (line # rest) totalDebit totalCredit accountKeys =
     (let debit = or0 (li_debit line); credit = or0 (li_credit line) in
      if debit < 0 \<or> credit < 0 then Inl ValidationError
      else if debit = 0 \<and> credit = 0 then Inl ValidationError
      else if debit > 0 \<and> credit > 0 then Inl ValidationError
      else check_lines rest (totalDebit + debit) (totalCredit + credit)
             (set_add accountKeys (li_accountKey line)))"

text \<open>
  \<open>accountMap\<close> is filled by \<open>Map.set\<close> in the order of the query result, so the last
  account with a key is the one the map holds.
\<close>

definition accountMap_of :: "Account list \<Rightarrow> string \<Rightarrow> Account option" where
  "accountMap_of accounts = map_of (rev (map (\<lambda>a. (a_key a, a)) accounts))"

definition transactionDoc ::
  "oid \<Rightarrow> date \<Rightarrow> date \<Rightarrow> (string \<Rightarrow> Account option) \<Rightarrow> oid \<times> TransactionLineInput \<Rightarrow> TransactionLine" where
  "transactionDoc journalId datetime now accountMap p =
     (case p of (i, line) \<Rightarrow>
       \<lparr> t_id = i,
         t_journalId = journalId,
         t_accountKey = li_accountKey line,
         t_accountCode = (case accountMap (li_accountKey line) of Some account \<Rightarrow> a_code account | None \<Rightarrow> []),
         t_debit = or0 (li_debit line),
         t_credit = or0 (li_credit line),
         t_meta = li_meta line,
         t_datetime = datetime,
         t_voided = False,
         t_createdAt = now,
         t_updatedAt = now \<rparr>)"

text \<open>
  \<open>postJournal\<close>. Every \<open>throw\<close> comes before the two inserts; the result pairs the
  outcome with the store after the call. The missing-account branch of
  \<open>transactionDoc\<close> is never taken: \<open>missingKeys\<close> is empty when the documents are built.
\<close>

definition postJournal :: "PostJournalInput \<Rightarrow> date \<Rightarrow> store \<Rightarrow> (error + PostJournalResult) \<times> store" where
  "postJournal data now s =
     (case pj_lines data of
        None \<Rightarrow> (Inl ValidationError, s)
      | Some lines \<Rightarrow>
          if length lines < 2 then (Inl ValidationError, s)
          else (case pj_datetime data of
            None \<Rightarrow> (Inl ValidationError, s)
          | Some datetime \<Rightarrow>
              if \<not> truthy (pj_memo data) then (Inl ValidationError, s)
              else (case check_lines lines 0 0 [] of
                Inl e \<Rightarrow> (Inl e, s)
              | Inr (totalDebit, totalCredit, accountKeys) \<Rightarrow>
                  if round_num totalDebit \<noteq> round_num totalCredit then (Inl DoubleEntryError, s)
                  else
                    let accounts = filter (\<lambda>a. a_key a \<in> set accountKeys) (acct_accounts s);
                        accountMap = accountMap_of accounts;
                        missingKeys = filter (\<lambda>k. accountMap k = None) accountKeys
                    in if missingKeys \<noteq> [] then (Inl AccountNotFoundError, s)
                    else
                      let inactive = filter (\<lambda>a. \<not> a_isActive a) accounts
                      in if inactive \<noteq> [] then (Inl ValidationError, s)
                      else
                        let journalId = next_oid s;
                            journalDoc =
                              \<lparr> j_id = journalId,
                                j_memo = (case pj_memo data of Some m \<Rightarrow> m | None \<Rightarrow> []),
                                j_datetime = datetime,
                                j_referenceType = pj_referenceType data,
                                j_referenceId = pj_referenceId data,
                                j_voided = False,
                                j_voidReason = None,
                                j_createdAt = now,
                                j_updatedAt = now \<rparr>;
                            transactionDocs =
                              map (transactionDoc journalId datetime now accountMap)
                                (enumerate (Suc journalId) lines)
                        in (Inr \<lparr> r_journal = journalDoc, r_transactions = transactionDocs \<rparr>,
                            s \<lparr> acct_journals := acct_journals s @ [journalDoc],
                               acct_transactions := acct_transactions s @ transactionDocs,
                               next_oid := Suc journalId + length lines \<rparr>))))"

text \<open>
  \<open>voidJournal\<close>: the conditional update of the journal, then the cascade to its lines.
\<close>

definition voidJournal :: "oid \<Rightarrow> string \<Rightarrow> date \<Rightarrow> store \<Rightarrow> (error + bool) \<times> store" where
  "voidJournal journalId reason now s =
     (case findOneAndUpdate (\<lambda>j. j_id j = journalId \<and> j_voided j = False)
             (\<lambda>j. j \<lparr> j_voided := True, j_voidReason := Some reason, j_updatedAt := now \<rparr>)
             (acct_journals s) of
        (None, _) \<Rightarrow> (Inl ValidationError, s)
      | (Some _, journals') \<Rightarrow>
          (Inr True,
           s \<lparr> acct_journals := journals',
              acct_transactions :=
                updateMany (\<lambda>t. t_journalId t = journalId)
                  (\<lambda>t. t \<lparr> t_voided := True, t_updatedAt := now \<rparr>) (acct_transactions s) \<rparr>))"


section \<open>Account hierarchy manager\<close>

record CreateAccountInput =
  ca_key :: "string option"
  ca_code :: "string option"
  ca_name :: "string option"
  ca_type :: "AccountType option"
  ca_parentGroup :: "AccountParentGroup option"
  ca_group :: "string option"
  ca_origin :: "AccountOrigin option"
  ca_parentAccountKey :: "string option"
  ca_extra :: "attrs option"

text \<open>
  In \<open>UpdateAccountInput\<close> the parent key has three states: absent (\<open>None\<close>, the field
  is left alone), \<open>null\<close> (\<open>Some None\<close>) and a string.
\<close>

record UpdateAccountInput =
  ua_key :: "string option"
  ua_name :: "string option"
  ua_group :: "string option"
  ua_isActive :: "bool option"
  ua_extra :: "attrs option"
  ua_parentAccountKey :: "string option option"


definition DEFAULT_OPENING_BALANCE_ACCOUNT :: "oid \<Rightarrow> date \<Rightarrow> Account" where
  "DEFAULT_OPENING_BALANCE_ACCOUNT i now =
     \<lparr> a_id = i,
       a_key = ''OPENING_BALANCE_EQUITY'',
       a_code = ''3999'',
       a_name = ''Opening Balance Equity'',
       a_type = TEquity,
       a_parentGroup = GEquity,
       a_group = ''Opening Balance'',
       a_origin = Some dynamicSystem,
       a_isActive = True,
       a_parentAccountKey = None,
       a_extra = [(''system'', ''true'')],
       a_createdAt = now,
       a_updatedAt = now \<rparr>"

subsection \<open>\<open>parseInt(string, 10)\<close>\<close>

text \<open>
  \<open>parseInt\<close> skips leading white space, reads an optional sign and then the longest
  run of decimal digits; whatever follows the digits is ignored. Without a digit the
  result is \<open>NaN\<close>, modelled as \<open>None\<close>. Strings are ASCII here, so white space is the
  six ASCII white space characters.
\<close>

definition is_space :: "char \<Rightarrow> bool" where
  "is_space c = (c \<in> set [CHR 0x09, CHR 0x0A, CHR 0x0B, CHR 0x0C, CHR 0x0D, CHR 0x20])"

definition is_digit :: "char \<Rightarrow> bool" where
  "is_digit c = (c \<in> set ''0123456789'')"

definition digits_value :: "string \<Rightarrow> int" where
  "digits_value ds = foldl (\<lambda>n c. 10 * n + (int (of_char c) - 48)) 0 ds"

definition parseInt :: "string \<Rightarrow> int option" where
  "parseInt str =
     (let t = dropWhile is_space str;
          sign = (case t of c # _ \<Rightarrow> if c = CHR ''-'' then - 1 else 1 | [] \<Rightarrow> 1);
          u = (case t of c # r \<Rightarrow> if c = CHR ''-'' \<or> c = CHR ''+'' then r else t | [] \<Rightarrow> []);
          ds = takeWhile is_digit u
      in if ds = [] then None else Some (sign * digits_value ds))"

subsection \<open>Validation\<close>

text \<open>
  \<open>validateAccountStructure\<close>. The chain of \<open>startsWith\<close> tests on the code has empty
  branches in the source and decides nothing, so it has no counterpart here.
\<close>

definition validateAccountStructure :: "CreateAccountInput \<Rightarrow> error + unit" where
  "validateAccountStructure data =
     (if \<not> truthy (ca_key data) \<or> \<not> truthy (ca_code data) \<or> \<not> truthy (ca_name data)
         \<or> ca_type data = None \<or> ca_parentGroup data = None \<or> \<not> truthy (ca_group data)
      then Inl ValidationError
      else if (case ca_code data of Some c \<Rightarrow> parseInt c = None | None \<Rightarrow> True) then Inl ValidationError
      else if ca_type data = Some TAsset \<and> ca_parentGroup data \<noteq> Some GAsset then Inl ValidationError
      else if ca_type data = Some TLiability \<and> ca_parentGroup data \<noteq> Some GLiability then Inl ValidationError
      else if ca_type data = Some TEquity \<and> ca_parentGroup data \<noteq> Some GEquity then Inl ValidationError
      else if ca_type data = Some TIncome \<and> ca_parentGroup data \<noteq> Some GIncome then Inl ValidationError
      else if ca_type data = Some TExpense \<and> ca_parentGroup data \<noteq> Some GExpense then Inl ValidationError
      else if ca_type data = Some TContra \<and> ca_parentGroup data \<notin> set [Some GAsset, Some GLiability]
      then Inl ValidationError
      else Inr ())"

definition MAX_DEPTH :: nat where
  "MAX_DEPTH = 100"

definition findByKey :: "Account list \<Rightarrow> string \<Rightarrow> Account option" where
  "findByKey accounts k = find (\<lambda>a. a_key a = k) accounts"

text \<open>
  The \<open>while\<close> loop of \<open>validateParent\<close>, with its loop variables \<open>currentKey\<close>,
  \<open>visited\<close> and \<open>depth\<close>. It ends when \<open>currentKey\<close> is falsy, with an error when the
  candidate is reached, and silently at a visited key, at a key without account, and when
  \<open>depth\<close> exceeds \<open>MAX_DEPTH\<close>.
\<close>

function validateParent_loop ::
  "Account list \<Rightarrow> string \<Rightarrow> string option \<Rightarrow> string list \<Rightarrow> nat \<Rightarrow> error + unit" where
  "validateParent_loop accounts accountKey currentKey visited depth =
     (if \<not> truthy currentKey then Inr ()
      else if currentKey = Some accountKey then Inl ValidationError
      else if currentKey \<in> Some ` set visited then Inr ()
      else (case findByKey accounts (case currentKey of Some k \<Rightarrow> k | None \<Rightarrow> []) of
              None \<Rightarrow> Inr ()
            | Some node \<Rightarrow>
                if Suc depth > MAX_DEPTH then Inr ()
                else validateParent_loop accounts accountKey (a_parentAccountKey node)
                       ((case currentKey of Some k \<Rightarrow> k | None \<Rightarrow> []) # visited) (Suc depth)))"
  by pat_completeness auto
termination
  by (relation "measure (\<lambda>(accounts, accountKey, currentKey, visited, depth). Suc MAX_DEPTH - depth)") auto

definition validateParent :: "Account list \<Rightarrow> string \<Rightarrow> string option \<Rightarrow> error + unit" where
  "validateParent accounts accountKey parentKey =
     (case parentKey of
        None \<Rightarrow> Inr ()
      | Some pk \<Rightarrow>
          if pk = [] then Inr ()
          else if accountKey = pk then Inl ValidationError
          else (case findByKey accounts pk of
                  None \<Rightarrow> Inl ValidationError
                | Some parent \<Rightarrow> validateParent_loop accounts accountKey (a_parentAccountKey parent) [pk] 0))"

definition isDebitNormal :: "Account \<Rightarrow> bool" where
  "isDebitNormal account =
     (a_parentGroup account = GAsset \<or> a_parentGroup account = GExpense
      \<or> a_type account = TContra \<and> a_parentGroup account = GLiability)"

subsection \<open>Creating and updating accounts\<close>

text \<open>
  \<open>createAccount\<close>. After \<open>validateAccountStructure\<close> the six required fields are
  present, so the last case of the pattern match below is never taken.
\<close>

definition createAccount ::
  "CreateAccountInput option \<Rightarrow> date \<Rightarrow> store \<Rightarrow> (error + Account) \<times> store" where
  "createAccount data_opt now s =
     (case data_opt of
        None \<Rightarrow> (Inl ValidationError, s)
      | Some data \<Rightarrow>
         (case validateAccountStructure data of
            Inl e \<Rightarrow> (Inl e, s)
          | Inr _ \<Rightarrow>
             if truthy (ca_parentAccountKey data)
                \<and> find (\<lambda>a. Some (a_key a) = ca_parentAccountKey data) (acct_accounts s) = None
             then (Inl ValidationError, s)
             else if find (\<lambda>a. Some (a_key a) = ca_key data \<or> Some (a_code a) = ca_code data)
                       (acct_accounts s) \<noteq> None
             then (Inl ValidationError, s)
             else (case (ca_key data, ca_code data, ca_name data, ca_type data,
                         ca_parentGroup data, ca_group data) of
                 (Some key, Some code, Some name, Some type, Some parentGroup, Some grp) \<Rightarrow>
                   let doc =
                     \<lparr> a_id = next_oid s,
                       a_key = key,
                       a_code = code,
                       a_name = name,
                       a_type = type,
                       a_parentGroup = parentGroup,
                       a_group = grp,
                       a_origin = ca_origin data,
                       a_isActive = True,
                       a_parentAccountKey =
                         (if truthy (ca_parentAccountKey data) then ca_parentAccountKey data else None),
                       a_extra = (case ca_extra data of Some e \<Rightarrow> e | None \<Rightarrow> []),
                       a_createdAt = now,
                       a_updatedAt = now \<rparr>
                   in (Inr doc,
                       s \<lparr> acct_accounts := acct_accounts s @ [doc], next_oid := Suc (next_oid s) \<rparr>)
               | _ \<Rightarrow> (Inl ValidationError, s))))"

text \<open>The \<open>$set\<close> document that \<open>updateAccount\<close> builds, applied to an account.\<close>

definition updateFields :: "UpdateAccountInput \<Rightarrow> date \<Rightarrow> Account \<Rightarrow> Account" where
  "updateFields data now a =
     a \<lparr> a_updatedAt := now,
         a_name := (case ua_name data of Some n \<Rightarrow> n | None \<Rightarrow> a_name a),
         a_group := (case ua_group data of Some g \<Rightarrow> g | None \<Rightarrow> a_group a),
         a_isActive := (case ua_isActive data of Some b \<Rightarrow> b | None \<Rightarrow> a_isActive a),
         a_extra := (case ua_extra data of Some e \<Rightarrow> e | None \<Rightarrow> a_extra a),
         a_parentAccountKey :=
           (case ua_parentAccountKey data of Some p \<Rightarrow> p | None \<Rightarrow> a_parentAccountKey a) \<rparr>"

text \<open>
  \<open>updateAccount\<close> validates the new parent before it looks for the account, and returns
  the account as it is after the update.
\<close>

definition updateAccount ::
  "UpdateAccountInput option \<Rightarrow> date \<Rightarrow> store \<Rightarrow> (error + Account) \<times> store" where
  "updateAccount data_opt now s =
     (case data_opt of
        None \<Rightarrow> (Inl ValidationError, s)
      | Some data \<Rightarrow>
         (case ua_key data of
            None \<Rightarrow> (Inl ValidationError, s)
          | Some key \<Rightarrow>
             if key = [] then (Inl ValidationError, s)
             else (case (case ua_parentAccountKey data of
                           None \<Rightarrow> Inr ()
                         | Some parentKey \<Rightarrow> validateParent (acct_accounts s) key parentKey) of
                 Inl e \<Rightarrow> (Inl e, s)
               | Inr _ \<Rightarrow>
                  (case findOneAndUpdate (\<lambda>a. a_key a = key) (updateFields data now) (acct_accounts s) of
                     (None, _) \<Rightarrow> (Inl AccountNotFoundError, s)
                   | (Some before, accounts') \<Rightarrow>
                       (Inr (updateFields data now before), s \<lparr> acct_accounts := accounts' \<rparr>)))))"

section \<open>Opening-balance orchestrator\<close>


definition ensureOpeningBalanceOffsetAccount ::
  "string option \<Rightarrow> date \<Rightarrow> store \<Rightarrow> (error + Account) \<times> store" where
  "ensureOpeningBalanceOffsetAccount offsetKey now s =
     (let keyToLookup = (if truthy offsetKey then (case offsetKey of Some k \<Rightarrow> k | None \<Rightarrow> [])
                         else a_key (DEFAULT_OPENING_BALANCE_ACCOUNT 0 now))
      in case findByKey (acct_accounts s) keyToLookup of
           Some existing \<Rightarrow> (Inr existing, s)
         | None \<Rightarrow>
             if truthy offsetKey then (Inl ValidationError, s)
             else let doc = DEFAULT_OPENING_BALANCE_ACCOUNT (next_oid s) now
                  in (Inr doc,
                      s \<lparr> acct_accounts := acct_accounts s @ [doc], next_oid := Suc (next_oid s) \<rparr>))"




section \<open>Balance and reporting aggregator\<close>

definition getNetBalance :: "rat \<Rightarrow> rat \<Rightarrow> AccountType \<Rightarrow> AccountParentGroup \<Rightarrow> rat" where
  "getNetBalance debit credit type parentGroup =
     (let isDebitNormal2 = (parentGroup = GAsset \<or> parentGroup = GExpense
                            \<or> type = TContra \<and> parentGroup = GLiability)
      in if isDebitNormal2 then round_num (debit - credit) else round_num (credit - debit))"

subsection \<open>Query filters\<close>

definition in_range :: "date option \<Rightarrow> date option \<Rightarrow> date \<Rightarrow> bool" where
  "in_range from to d =
     ((case from of None \<Rightarrow> True | Some f \<Rightarrow> f \<le> d) \<and> (case to of None \<Rightarrow> True | Some t \<Rightarrow> d \<le> t))"

text \<open>
  Each entry of \<open>metaFilter\<close> becomes an equality test on the field of that name in the
  line's \<open>meta\<close>. An attribute bag lists each of its keys once.
\<close>

definition meta_match :: "attrs option \<Rightarrow> attrs option \<Rightarrow> bool" where
  "meta_match metaFilter meta =
     (case metaFilter of
        None \<Rightarrow> True
      | Some mf \<Rightarrow>
          list_all (\<lambda>(k, v). (case meta of None \<Rightarrow> False | Some m \<Rightarrow> map_of m k = Some v)) mf)"

definition account_match ::
  "string \<Rightarrow> date option \<Rightarrow> date option \<Rightarrow> attrs option \<Rightarrow> TransactionLine \<Rightarrow> bool" where
  "account_match accountKey from to metaFilter t =
     (t_accountKey t = accountKey \<and> t_voided t = False \<and> in_range from to (t_datetime t)
      \<and> meta_match metaFilter (t_meta t))"

subsection \<open>Account balance\<close>

record BalanceInput =
  gb_accountKey :: string
  gb_from :: "date option"
  gb_to :: "date option"
  gb_metaFilter :: "attrs option"

record AccountBalanceResult =
  ab_balance :: rat
  ab_debit :: rat
  ab_credit :: rat

text \<open>
  The \<open>$group\<close> stage with \<open>_id: null\<close> yields one row when a line matches and no row
  otherwise. The account is looked up only after the empty result has returned.
\<close>

definition getAccountBalance :: "BalanceInput \<Rightarrow> store \<Rightarrow> error + AccountBalanceResult" where
  "getAccountBalance data s =
     (let result = filter (account_match (gb_accountKey data) (gb_from data) (gb_to data) (gb_metaFilter data))
                     (acct_transactions s)
      in if result = [] then Inr \<lparr> ab_balance = 0, ab_debit = 0, ab_credit = 0 \<rparr>
         else
           let debit = sum_list (map t_debit result);
               credit = sum_list (map t_credit result)
           in case findByKey (acct_accounts s) (gb_accountKey data) of
                None \<Rightarrow> Inl PlainError
              | Some account \<Rightarrow>
                  Inr \<lparr> ab_balance = getNetBalance debit credit (a_type account) (a_parentGroup account),
                        ab_debit = round_num debit,
                        ab_credit = round_num credit \<rparr>)"

subsection \<open>Account ledger\<close>


record AccountLedgerItem = TransactionLine +
  runningBalance :: rat



text \<open>The \<open>map\<close> over the page, which carries \<open>currentBalance\<close> from item to item.\<close>

fun ledgerItems :: "Account \<Rightarrow> rat \<Rightarrow> TransactionLine list \<Rightarrow> AccountLedgerItem list" where
  "ledgerItems account currentBalance [] = []"
| "ledgerItems account currentBalance (item # items) =
     (let netChange = getNetBalance (t_debit item) (t_credit item) (a_type account) (a_parentGroup account);
          currentBalance' = round_num (currentBalance + netChange)
      in TransactionLine.extend item (AccountLedgerItem.fields currentBalance')
         # ledgerItems account currentBalance' items)"


subsection \<open>Grouping by account\<close>

record AggRow =
  row_id :: string
  row_debit :: rat
  row_credit :: rat

text \<open>
  The \<open>$group\<close> stage keyed by \<open>accountKey\<close>: one row for each account key among the
  lines, with the sums of debit and credit of the lines of that key. The store does not
  fix the order of the rows; the model lists them in the order of \<open>remdups\<close>.
\<close>

definition group_by_accountKey :: "TransactionLine list \<Rightarrow> AggRow list" where
  "group_by_accountKey ts =
     map (\<lambda>k. \<lparr> row_id = k,
                row_debit = sum_list (map t_debit (filter (\<lambda>t. t_accountKey t = k) ts)),
                row_credit = sum_list (map t_credit (filter (\<lambda>t. t_accountKey t = k) ts)) \<rparr>)
       (remdups (map t_accountKey ts))"

subsection \<open>Trial balance\<close>

record TrialBalanceLine =
  tl_accountKey :: string
  tl_accountCode :: string
  tl_accountName :: string
  tl_debit :: rat
  tl_credit :: rat
  tl_balance :: rat

record TrialBalanceResult =
  tb_lines :: "TrialBalanceLine list"
  tb_totalDebit :: rat
  tb_totalCredit :: rat
  tb_asOf :: date

text \<open>
  The \<open>for\<close> loop of \<open>getTrialBalance\<close> with its three loop variables; a row whose
  account is not in the chart is skipped.
\<close>

fun trialBalance_loop ::
  "(string \<Rightarrow> Account option) \<Rightarrow> AggRow list \<Rightarrow> TrialBalanceLine list \<Rightarrow> rat \<Rightarrow> rat
     \<Rightarrow> TrialBalanceLine list \<times> rat \<times> rat" where
  "trialBalance_loop accountMap [] lines grandTotalDebit grandTotalCredit =
     (lines, grandTotalDebit, grandTotalCredit)"
| "trialBalance_loop accountMap (row # aggr) lines grandTotalDebit grandTotalCredit =
     (case accountMap (row_id row) of
        None \<Rightarrow> trialBalance_loop accountMap aggr lines grandTotalDebit grandTotalCredit
      | Some acct \<Rightarrow>
          let d = round_num (row_debit row);
              c = round_num (row_credit row)
          in trialBalance_loop accountMap aggr
               (lines @ [\<lparr> tl_accountKey = a_key acct,
                            tl_accountCode = a_code acct,
                            tl_accountName = a_name acct,
                            tl_debit = d,
                            tl_credit = c,
                            tl_balance = getNetBalance d c (a_type acct) (a_parentGroup acct) \<rparr>])
               (grandTotalDebit + d) (grandTotalCredit + c))"

text \<open>
  \<open>Array.prototype.sort\<close> with a comparison function is a stable sort: an element
  goes before the first element that the comparison does not put before it.
\<close>

fun insert_sorted :: "('a \<Rightarrow> 'a \<Rightarrow> int) \<Rightarrow> 'a \<Rightarrow> 'a list \<Rightarrow> 'a list" where
  "insert_sorted compareFn x [] = [x]"
| "insert_sorted compareFn x (y # ys) =
     (if compareFn x y \<le> 0 then x # y # ys else y # insert_sorted compareFn x ys)"

definition Array_sort :: "('a \<Rightarrow> 'a \<Rightarrow> int) \<Rightarrow> 'a list \<Rightarrow> 'a list" where
  "Array_sort compareFn xs = foldr (insert_sorted compareFn) xs []"

text \<open>
  \<open>getTrialBalance\<close>. The lines are sorted by account code with \<open>localeCompare\<close>,
  which returns a negative number, zero or a positive number. The order in which it puts
  two strings is that of the collation of the host; it is a parameter of the model.
\<close>

definition getTrialBalance ::
  "(string \<Rightarrow> string \<Rightarrow> int) \<Rightarrow> date option \<Rightarrow> date option \<Rightarrow> date \<Rightarrow> store \<Rightarrow> TrialBalanceResult" where
  "getTrialBalance localeCompare from to now s =
     (let aggr = group_by_accountKey
                   (filter (\<lambda>t. t_voided t = False \<and> in_range from to (t_datetime t)) (acct_transactions s));
          accountMap = accountMap_of (acct_accounts s)
      in case trialBalance_loop accountMap aggr [] 0 0 of
           (lines, grandTotalDebit, grandTotalCredit) \<Rightarrow>
             \<lparr> tb_lines = Array_sort (\<lambda>a b. localeCompare (tl_accountCode a) (tl_accountCode b)) lines,
               tb_totalDebit = round_num grandTotalDebit,
               tb_totalCredit = round_num grandTotalCredit,
               tb_asOf = (case to of Some t \<Rightarrow> t | None \<Rightarrow> now) \<rparr>)"

subsection \<open>Balance sheet\<close>






section \<open>Bulk voiding\<close>

datatype JournalIdentifier = ByJournalId oid | ByReference string string

record VoidJournalResult =
  journalsVoided :: nat
  transactionsVoided :: nat

definition identifies :: "JournalIdentifier \<Rightarrow> Journal \<Rightarrow> bool" where
  "identifies identifier j =
     (case identifier of
        ByJournalId i \<Rightarrow> j_id j = i
      | ByReference referenceType referenceId \<Rightarrow>
          j_referenceType j = Some referenceType \<and> j_referenceId j = Some referenceId)"

text \<open>
  Modelled from the spec: \<open>voidJournalsByIdentifier\<close> is declared among the type
  declarations of the package, but its body is not part of the sources at hand. The
  specification says: bulk void by \<open>journalId\<close> or by \<open>(referenceType, referenceId)\<close>;
  reports counts of journals and entries voided; voiding zero matches is not an error.
  The journals selected are those the identifier names that are not voided yet (a voided
  journal is immutable); each is voided as \<open>voidJournal\<close> does it, with the cascade to its
  lines, and the two counts are the numbers of journals and of lines so voided.
\<close>

definition voidJournalsByIdentifier ::
  "JournalIdentifier \<Rightarrow> string \<Rightarrow> date \<Rightarrow> store \<Rightarrow> (error + VoidJournalResult) \<times> store" where
  "voidJournalsByIdentifier identifier reason now s =
     (let selected = filter (\<lambda>j. identifies identifier j \<and> j_voided j = False) (acct_journals s);
          ids = map j_id selected;
          lines = filter (\<lambda>t. t_journalId t \<in> set ids) (acct_transactions s)
      in (Inr \<lparr> journalsVoided = length selected, transactionsVoided = length lines \<rparr>,
          s \<lparr> acct_journals :=
                updateMany (\<lambda>j. identifies identifier j \<and> j_voided j = False)
                  (\<lambda>j. j \<lparr> j_voided := True, j_voidReason := Some reason, j_updatedAt := now \<rparr>)
                  (acct_journals s),
             acct_transactions :=
                updateMany (\<lambda>t. t_journalId t \<in> set ids)
                  (\<lambda>t. t \<lparr> t_voided := True, t_updatedAt := now \<rparr>) (acct_transactions s) \<rparr>))"

section \<open>Specification vocabulary and example data\<close>

subsection \<open>Rounding to the cent, in the words of the specification\<close>

text \<open>
  An amount is a whole number of cents when a hundred times the amount is an integer.
  Rounding to two decimals takes an amount to the nearest whole number of cents, a half
  cent upwards. An amount lies next to a half-cent point when it is less than a
  hundredth of a cent away from one; there the binary representation of the amount
  decides which way the source rounds. A whole number of cents never lies next to one.
\<close>

definition is_cents :: "rat \<Rightarrow> bool" where
  "is_cents x = (of_int \<lfloor>x * 100\<rfloor> = x * 100)"

definition round2 :: "rat \<Rightarrow> rat" where
  "round2 x = of_int \<lfloor>x * 100 + 1 / 2\<rfloor> / 100"

definition near_half_cent :: "rat \<Rightarrow> bool" where
  "near_half_cent x = (\<bar>frac (x * 100) - 1 / 2\<bar> < 1 / 100)"

subsection \<open>The rejected requests, in the words of the specification\<close>






subsection \<open>Example data\<close>

definition store0 :: store where
  "store0 = \<lparr> acct_accounts = [], acct_journals = [], acct_transactions = [], next_oid = 0 \<rparr>"

definition line_in :: "string \<Rightarrow> rat option \<Rightarrow> rat option \<Rightarrow> TransactionLineInput" where
  "line_in k d c = \<lparr> li_accountKey = k, li_debit = d, li_credit = c, li_meta = None \<rparr>"





definition acct :: "oid \<Rightarrow> string \<Rightarrow> string \<Rightarrow> AccountType \<Rightarrow> AccountParentGroup \<Rightarrow> Account" where
  "acct i k c ty pg =
     \<lparr> a_id = i, a_key = k, a_code = c, a_name = k, a_type = ty, a_parentGroup = pg,
       a_group = ''Main'', a_origin = Some userCreated, a_isActive = True,
       a_parentAccountKey = None, a_extra = [], a_createdAt = 0, a_updatedAt = 0 \<rparr>"

definition jrnl :: "oid \<Rightarrow> date \<Rightarrow> string option \<Rightarrow> string option \<Rightarrow> Journal" where
  "jrnl i d rt ri =
     \<lparr> j_id = i, j_memo = ''entry'', j_datetime = d, j_referenceType = rt, j_referenceId = ri,
       j_voided = False, j_voidReason = None, j_createdAt = d, j_updatedAt = d \<rparr>"

definition txl :: "oid \<Rightarrow> oid \<Rightarrow> string \<Rightarrow> date \<Rightarrow> rat \<Rightarrow> rat \<Rightarrow> TransactionLine" where
  "txl i j k d debit credit =
     \<lparr> t_id = i, t_journalId = j, t_accountKey = k, t_accountCode = [], t_debit = debit,
       t_credit = credit, t_meta = None, t_datetime = d, t_voided = False,
       t_createdAt = d, t_updatedAt = d \<rparr>"

definition chart1 :: "Account list" where
  "chart1 =
     [acct 1 ''CASH'' ''1000'' TAsset GAsset,
      acct 2 ''LOAN'' ''2000'' TLiability GLiability,
      acct 3 ''OPENING_BALANCE_EQUITY'' ''3999'' TEquity GEquity,
      acct 4 ''SALES'' ''4000'' TIncome GIncome,
      acct 5 ''RENT'' ''5000'' TExpense GExpense]"

text \<open>A store with one opening-balance journal of 300 for the cash account.\<close>

definition store1 :: store where
  "store1 =
     \<lparr> acct_accounts = chart1,
       acct_journals = [jrnl 10 1000 (Some ''opening_balance'') (Some ''CASH'')],
       acct_transactions =
         [txl 11 10 ''CASH'' 1000 300 0, txl 12 10 ''OPENING_BALANCE_EQUITY'' 1000 0 300],
       next_oid = 20 \<rparr>"

text \<open>The lines that the \<open>$match\<close> stage of \<open>getAccountBalance\<close> selects.\<close>

definition matching_lines :: "BalanceInput \<Rightarrow> store \<Rightarrow> TransactionLine list" where
  "matching_lines data s =
     filter (account_match (gb_accountKey data) (gb_from data) (gb_to data) (gb_metaFilter data))
       (acct_transactions s)"

definition balance_of :: "string \<Rightarrow> BalanceInput" where
  "balance_of k = \<lparr> gb_accountKey = k, gb_from = None, gb_to = None, gb_metaFilter = None \<rparr>"

text \<open>The lines of \<open>store1\<close> without any account.\<close>

definition store_orphan :: store where
  "store_orphan = store1 \<lparr> acct_accounts := [] \<rparr>"

subsection \<open>Accepted accounts, in the words of the specification\<close>

text \<open>A numeric string is a non-empty string of decimal digits.\<close>

definition numeric_string :: "string \<Rightarrow> bool" where
  "numeric_string str = (str \<noteq> [] \<and> list_all is_digit str)"

definition consistent :: "AccountType \<Rightarrow> AccountParentGroup \<Rightarrow> bool" where
  "consistent ty pg =
     ((ty, pg) \<in> set [(TAsset, GAsset), (TLiability, GLiability), (TEquity, GEquity),
                       (TIncome, GIncome), (TExpense, GExpense), (TContra, GAsset), (TContra, GLiability)])"

definition missing_field :: "CreateAccountInput \<Rightarrow> bool" where
  "missing_field data =
     (\<not> truthy (ca_key data) \<or> \<not> truthy (ca_code data) \<or> \<not> truthy (ca_name data)
      \<or> ca_type data = None \<or> ca_parentGroup data = None \<or> \<not> truthy (ca_group data))"

definition account_in :: "string \<Rightarrow> string \<Rightarrow> AccountType \<Rightarrow> AccountParentGroup \<Rightarrow> CreateAccountInput" where
  "account_in k c ty pg =
     \<lparr> ca_key = Some k, ca_code = Some c, ca_name = Some ''Petty cash'', ca_type = Some ty,
       ca_parentGroup = Some pg, ca_group = Some ''Current'', ca_origin = Some userCreated,
       ca_parentAccountKey = None, ca_extra = None \<rparr>"

definition petty_doc :: Account where
  "petty_doc =
     \<lparr> a_id = 0, a_key = ''PETTY'', a_code = ''12abc'', a_name = ''Petty cash'', a_type = TAsset,
       a_parentGroup = GAsset, a_group = ''Current'', a_origin = Some userCreated, a_isActive = True,
       a_parentAccountKey = None, a_extra = [], a_createdAt = 7, a_updatedAt = 7 \<rparr>"

subsection \<open>The journals and lines that a bulk void selects\<close>

definition selected_journals :: "JournalIdentifier \<Rightarrow> store \<Rightarrow> Journal list" where
  "selected_journals identifier s =
     filter (\<lambda>j. identifies identifier j \<and> \<not> j_voided j) (acct_journals s)"

definition lines_of_journals :: "Journal list \<Rightarrow> store \<Rightarrow> TransactionLine list" where
  "lines_of_journals js s = filter (\<lambda>t. t_journalId t \<in> j_id ` set js) (acct_transactions s)"

subsection \<open>The ancestor chain, in the words of the specification\<close>

text \<open>
  The keys met when walking up from a key along the parent references, through at most
  \<open>n\<close> accounts; \<open>reaches\<close> says that the walk arrives at an account before it meets a
  key for the second time.
\<close>

fun ancestor_chain :: "Account list \<Rightarrow> string option \<Rightarrow> nat \<Rightarrow> string list" where
  "ancestor_chain accounts cur 0 = []"
| "ancestor_chain accounts cur (Suc n) =
     (case cur of
        None \<Rightarrow> []
      | Some k \<Rightarrow>
          if k = [] then []
          else k # (case findByKey accounts k of
                      None \<Rightarrow> []
                    | Some node \<Rightarrow> ancestor_chain accounts (a_parentAccountKey node) n))"

definition reaches :: "string \<Rightarrow> string list \<Rightarrow> string list \<Rightarrow> bool" where
  "reaches accountKey visited chain =
     (\<exists>i < length chain. chain ! i = accountKey \<and> distinct (take i chain)
        \<and> set (take i chain) \<inter> set visited = {})"

definition ancestors_of :: "Account list \<Rightarrow> string \<Rightarrow> string list" where
  "ancestors_of accounts parentKey =
     (case findByKey accounts parentKey of
        None \<Rightarrow> []
      | Some parent \<Rightarrow> ancestor_chain accounts (a_parentAccountKey parent) (Suc MAX_DEPTH))"

definition child_of :: "Account \<Rightarrow> string \<Rightarrow> Account" where
  "child_of a p = a \<lparr> a_parentAccountKey := Some p \<rparr>"

definition chart_abc :: "Account list" where
  "chart_abc =
     [acct 1 ''A'' ''1001'' TAsset GAsset,
      child_of (acct 2 ''B'' ''1002'' TAsset GAsset) ''A'',
      child_of (acct 3 ''C'' ''1003'' TAsset GAsset) ''B'',
      acct 4 ''D'' ''1004'' TAsset GAsset]"

definition store_abc :: store where
  "store_abc = \<lparr> acct_accounts = chart_abc, acct_journals = [], acct_transactions = [], next_oid = 5 \<rparr>"

definition chart_loop :: "Account list" where
  "chart_loop =
     [child_of (acct 1 ''X'' ''1001'' TAsset GAsset) ''Y'',
      child_of (acct 2 ''Y'' ''1002'' TAsset GAsset) ''X'',
      acct 3 ''A'' ''1003'' TAsset GAsset]"

definition reparent :: "string \<Rightarrow> string \<Rightarrow> UpdateAccountInput" where
  "reparent k p = \<lparr> ua_key = Some k, ua_name = None, ua_group = None, ua_isActive = None,
      ua_extra = None, ua_parentAccountKey = Some (Some p) \<rparr>"

subsection \<open>The ledger, in the words of the specification\<close>








text \<open>
  The balance that a debit total and a credit total give the account before rounding,
  the net change of an entry, and the opening balance of a ledger request.
\<close>

definition signed :: "Account \<Rightarrow> rat \<Rightarrow> rat \<Rightarrow> rat" where
  "signed account debit credit = (if isDebitNormal account then debit - credit else credit - debit)"

definition netChange :: "Account \<Rightarrow> TransactionLine \<Rightarrow> rat" where
  "netChange account t = round2 (signed account (t_debit t) (t_credit t))"


definition store2 :: store where
  "store2 =
     \<lparr> acct_accounts = chart1,
       acct_journals = [jrnl 20 1000 None None, jrnl 30 3000 None None, jrnl 40 2000 None None],
       acct_transactions =
         [txl 21 20 ''CASH'' 1000 300 0, txl 22 20 ''OPENING_BALANCE_EQUITY'' 1000 0 300,
          txl 31 30 ''RENT'' 3000 (5025 / 100) 0, txl 32 30 ''CASH'' 3000 0 (5025 / 100),
          txl 41 40 ''CASH'' 2000 100 0, txl 42 40 ''SALES'' 2000 0 100],
       next_oid = 50 \<rparr>"










subsection \<open>Balanced ledgers, in the words of the specification\<close>

definition journal_balanced :: "TransactionLine list \<Rightarrow> oid \<Rightarrow> bool" where
  "journal_balanced ts j =
     (round_num (sum_list (map t_debit (filter (\<lambda>t. t_journalId t = j) ts)))
      = round_num (sum_list (map t_credit (filter (\<lambda>t. t_journalId t = j) ts))))"

definition balanced_journals :: "TransactionLine list \<Rightarrow> bool" where
  "balanced_journals ts = (\<forall>j \<in> set (map t_journalId ts). journal_balanced ts j)"

definition whole_cents :: "TransactionLine list \<Rightarrow> bool" where
  "whole_cents ts = (\<forall>t \<in> set ts. is_cents (t_debit t) \<and> is_cents (t_credit t))"

definition accounts_known :: "Account list \<Rightarrow> TransactionLine list \<Rightarrow> bool" where
  "accounts_known accounts ts = (\<forall>t \<in> set ts. accountMap_of accounts (t_accountKey t) \<noteq> None)"

definition lines_in_range :: "date option \<Rightarrow> date option \<Rightarrow> store \<Rightarrow> TransactionLine list" where
  "lines_in_range from to s =
     filter (\<lambda>t. t_voided t = False \<and> in_range from to (t_datetime t)) (acct_transactions s)"

text \<open>A collation for the examples: the order of the character codes.\<close>

definition code_order :: "string \<Rightarrow> string \<Rightarrow> int" where
  "code_order a b = (if a = b then 0 else if a < b then - 1 else 1)"

definition store_chart :: store where
  "store_chart = \<lparr> acct_accounts = chart1, acct_journals = [], acct_transactions = [], next_oid = 10 \<rparr>"

definition subcent_request :: PostJournalInput where
  "subcent_request =
     \<lparr> pj_memo = Some ''rent'', pj_datetime = Some 1000, pj_referenceType = None, pj_referenceId = None,
       pj_lines = Some [line_in ''RENT'' (Some (100006 / 1000)) None,
                        line_in ''CASH'' None (Some (50003 / 1000)),
                        line_in ''LOAN'' None (Some (50003 / 1000))] \<rparr>"

definition store_subcent :: store where
  "store_subcent =
     \<lparr> acct_accounts = chart1,
       acct_journals = [(jrnl 10 1000 None None) \<lparr> j_memo := ''rent'', j_createdAt := 7, j_updatedAt := 7 \<rparr>],
       acct_transactions =
         [(txl 11 10 ''RENT'' 1000 (100006 / 1000) 0) \<lparr> t_accountCode := ''5000'', t_createdAt := 7, t_updatedAt := 7 \<rparr>,
          (txl 12 10 ''CASH'' 1000 0 (50003 / 1000)) \<lparr> t_accountCode := ''1000'', t_createdAt := 7, t_updatedAt := 7 \<rparr>,
          (txl 13 10 ''LOAN'' 1000 0 (50003 / 1000)) \<lparr> t_accountCode := ''2000'', t_createdAt := 7, t_updatedAt := 7 \<rparr>],
       next_oid = 14 \<rparr>"

subsection \<open>The balance sheet equation, in the words of the specification\<close>






subsection \<open>Opening balances, in the words of the specification\<close>




definition OFFSET_KEY :: string where
  "OFFSET_KEY = ''OPENING_BALANCE_EQUITY''"



definition after_offset :: "date \<Rightarrow> store \<Rightarrow> store" where
  "after_offset now s = snd (ensureOpeningBalanceOffsetAccount None now s)"

definition journalDoc_of :: "PostJournalInput \<Rightarrow> date \<Rightarrow> date \<Rightarrow> oid \<Rightarrow> Journal" where
  "journalDoc_of data datetime now journalId =
     \<lparr> j_id = journalId,
       j_memo = (case pj_memo data of Some m \<Rightarrow> m | None \<Rightarrow> []),
       j_datetime = datetime,
       j_referenceType = pj_referenceType data,
       j_referenceId = pj_referenceId data,
       j_voided = False,
       j_voidReason = None,
       j_createdAt = now,
       j_updatedAt = now \<rparr>"


section \<open>Properties of rounding\<close>

text \<open>
  The rounding function of the source leaves a whole number of cents as it is, and it
  rounds to two decimals, a half cent upwards, every amount that does not lie next to a
  half-cent point.
\<close>

lemma round_num_cents: "round_num (of_int n / 100) = of_int n / 100"
proof -
  have "\<lfloor>(of_int n / 100 + EPSILON) * 100 + 1 / 2 :: rat\<rfloor> = n"
    by (simp add: floor_eq_iff EPSILON_def algebra_simps)
  thus ?thesis by (simp add: round_num_def Math_round_def)
qed

lemma is_cents_iff: "is_cents x \<longleftrightarrow> (\<exists>n. x = of_int n / 100)"
proof
  assume "is_cents x"
  then obtain n where "x * 100 = of_int n"
    unfolding is_cents_def of_int_floor_cancel ..
  then have "x = of_int n / 100" by simp
  then show "\<exists>n. x = of_int n / 100" ..
next
  assume "\<exists>n. x = of_int n / 100"
  then obtain n where "x = of_int n / 100" ..
  then have "x * 100 = of_int n" by simp
  then show "is_cents x" unfolding is_cents_def by simp
qed

lemma round_num_id: "is_cents x \<Longrightarrow> round_num x = x"
proof -
  assume "is_cents x"
  then obtain n where x: "x = of_int n / 100" unfolding is_cents_iff ..
  show ?thesis unfolding x by (rule round_num_cents)
qed

lemma is_cents_round_num [simp]: "is_cents (round_num x)"
  unfolding is_cents_iff round_num_def Math_round_def by blast

lemma is_cents_0 [simp]: "is_cents 0"
  by (simp add: is_cents_def)

lemma is_cents_add: "is_cents a \<Longrightarrow> is_cents b \<Longrightarrow> is_cents (a + b)"
proof -
  assume "is_cents a" "is_cents b"
  then obtain m n where "a = of_int m / 100" "b = of_int n / 100"
    by (auto simp: is_cents_iff)
  then have "a + b = of_int (m + n) / 100" by (simp add: add_divide_distrib)
  then show ?thesis unfolding is_cents_iff ..
qed


lemma is_cents_sum_list: "\<forall>x \<in> set xs. is_cents (f x) \<Longrightarrow> is_cents (sum_list (map f xs))"
  by (induction xs) (auto simp: is_cents_add)

lemma round_num_0 [simp]: "round_num 0 = 0"
  by (simp add: round_num_id)

lemma EPSILON_small: "0 < EPSILON" "EPSILON * 100 < 1 / 100"
  by (simp_all add: EPSILON_def)

lemma round_num_round2:
  assumes "\<not> near_half_cent x"
  shows "round_num x = round2 x"
proof -
  define y where "y = x * 100"
  define n where "n = \<lfloor>y\<rfloor>"
  have f: "frac y = y - of_int n" by (simp add: frac_def n_def)
  have lo: "of_int n \<le> y" and hi: "y < of_int n + 1" unfolding n_def by linarith+
  from assms have far: "frac y \<le> 1 / 2 - 1 / 100 \<or> 1 / 2 + 1 / 100 \<le> frac y"
    unfolding near_half_cent_def y_def by linarith
  have e: "(x + EPSILON) * 100 = y + EPSILON * 100" by (simp add: y_def algebra_simps)
  from far have "\<lfloor>y + EPSILON * 100 + 1 / 2\<rfloor> = \<lfloor>y + 1 / 2\<rfloor>"
  proof
    assume "frac y \<le> 1 / 2 - 1 / 100"
    with f lo hi EPSILON_small have "\<lfloor>y + EPSILON * 100 + 1 / 2\<rfloor> = n" "\<lfloor>y + 1 / 2\<rfloor> = n"
      unfolding floor_eq_iff by linarith+
    then show ?thesis by simp
  next
    assume "1 / 2 + 1 / 100 \<le> frac y"
    with f lo hi EPSILON_small have "\<lfloor>y + EPSILON * 100 + 1 / 2\<rfloor> = n + 1" "\<lfloor>y + 1 / 2\<rfloor> = n + 1"
      unfolding floor_eq_iff of_int_add of_int_1 by linarith+
    then show ?thesis by simp
  qed
  then show ?thesis
    by (simp add: round_num_def Math_round_def round2_def e y_def)
qed

lemma is_cents_not_near: "is_cents x \<Longrightarrow> \<not> near_half_cent x"
proof -
  assume "is_cents x"
  then have "frac (x * 100) = 0" unfolding is_cents_def frac_def by linarith
  then show ?thesis unfolding near_half_cent_def by (simp only:)
qed

lemma round2_cents: "is_cents x \<Longrightarrow> round2 x = x"
  using round_num_round2 [OF is_cents_not_near] round_num_id by metis

lemma round2_0 [simp]: "round2 0 = 0"
  by (simp add: round2_cents)

lemma is_cents_round2 [simp]: "is_cents (round2 x)"
  unfolding is_cents_iff round2_def by blast

section \<open>Properties of the posting engine\<close>













subsection \<open>What a successful posting writes\<close>

lemma accountMap_of_None_iff: "accountMap_of accounts k = None \<longleftrightarrow> k \<notin> a_key ` set accounts"
  by (simp add: accountMap_of_def map_of_eq_None_iff image_image)

lemma postJournal_success:
  assumes "pj_lines data = Some lines" and "\<not> length lines < 2"
    and "pj_datetime data = Some datetime" and "truthy (pj_memo data)"
    and "check_lines lines 0 0 [] = Inr (td, tc, keys)" and "round_num td = round_num tc"
    and "\<forall>k \<in> set keys. accountMap_of (filter (\<lambda>a. a_key a \<in> set keys) (acct_accounts s)) k \<noteq> None"
    and "\<forall>a \<in> set (acct_accounts s). a_key a \<in> set keys \<longrightarrow> a_isActive a"
  shows "postJournal data now s =
     (Inr \<lparr> r_journal = journalDoc_of data datetime now (next_oid s),
            r_transactions =
              map (transactionDoc (next_oid s) datetime now
                     (accountMap_of (filter (\<lambda>a. a_key a \<in> set keys) (acct_accounts s))))
                (enumerate (Suc (next_oid s)) lines) \<rparr>,
      s \<lparr> acct_journals := acct_journals s @ [journalDoc_of data datetime now (next_oid s)],
         acct_transactions := acct_transactions s @
              map (transactionDoc (next_oid s) datetime now
                     (accountMap_of (filter (\<lambda>a. a_key a \<in> set keys) (acct_accounts s))))
                (enumerate (Suc (next_oid s)) lines),
         next_oid := Suc (next_oid s) + length lines \<rparr>)"
proof -
  have m: "filter (\<lambda>k. accountMap_of (filter (\<lambda>a. a_key a \<in> set keys) (acct_accounts s)) k = None) keys = []"
    using assms(7) by (simp add: filter_empty_conv)
  have i: "filter (\<lambda>a. \<not> a_isActive a) (filter (\<lambda>a. a_key a \<in> set keys) (acct_accounts s)) = []"
    using assms(8) by (simp add: filter_empty_conv)
  show ?thesis
    unfolding postJournal_def Let_def journalDoc_of_def
    by (simp only: assms(1-6) m i option.case sum.case prod.case if_False if_True not_not refl
        not_True_eq_False)
qed

text \<open>
  Every line that \<open>postJournal\<close> writes is on an account of the chart, so a store in
  which all lines have their account keeps that property when a journal is posted.
\<close>

lemma check_lines_keys:
  "check_lines ls td tc ks = Inr (a, b, ks') \<Longrightarrow> set ks' = set ks \<union> li_accountKey ` set ls"
proof (induction ls arbitrary: td tc ks)
  case Nil
  then show ?case by simp
next
  case (Cons l ls)
  from Cons.prems have "check_lines ls (td + or0 (li_debit l)) (tc + or0 (li_credit l))
      (set_add ks (li_accountKey l)) = Inr (a, b, ks')"
    by (simp add: Let_def split: if_splits)
  from Cons.IH [OF this] show ?case
    by (auto simp: set_add_def split: if_splits)
qed

lemma t_accountKey_transactionDoc [simp]:
  "t_accountKey (transactionDoc journalId datetime now accountMap p) = li_accountKey (snd p)"
  by (cases p) (simp add: transactionDoc_def)

lemma postJournal_accounts_known:
  assumes "postJournal data now s = (Inr r, s')"
    and "accounts_known (acct_accounts s) (acct_transactions s)"
  shows "accounts_known (acct_accounts s') (acct_transactions s')"
proof -
  from assms(1) obtain lines where l: "pj_lines data = Some lines"
    by (cases "pj_lines data") (simp_all add: postJournal_def)
  from assms(1) l have len: "\<not> length lines < 2"
    by (auto simp: postJournal_def split: if_splits)
  from assms(1) l len obtain datetime where dt: "pj_datetime data = Some datetime"
    by (cases "pj_datetime data") (simp_all add: postJournal_def)
  from assms(1) l len dt have memo: "truthy (pj_memo data)"
    by (auto simp: postJournal_def split: if_splits)
  from assms(1) l len dt memo obtain td tc keys where c: "check_lines lines 0 0 [] = Inr (td, tc, keys)"
    by (cases "check_lines lines 0 0 []") (auto simp: postJournal_def)
  from assms(1) l len dt memo c have bal: "round_num td = round_num tc"
    by (auto simp: postJournal_def split: if_splits)
  from assms(1) l len dt memo c bal
  have m: "filter (\<lambda>k. accountMap_of (filter (\<lambda>a. a_key a \<in> set keys) (acct_accounts s)) k = None) keys = []"
    by (auto simp: postJournal_def Let_def split: if_splits)
  from assms(1) l len dt memo c bal m
  have i: "filter (\<lambda>a. \<not> a_isActive a) (filter (\<lambda>a. a_key a \<in> set keys) (acct_accounts s)) = []"
    by (auto simp: postJournal_def Let_def split: if_splits)
  from m have m': "\<forall>k \<in> set keys. accountMap_of (filter (\<lambda>a. a_key a \<in> set keys) (acct_accounts s)) k \<noteq> None"
    by (simp add: filter_empty_conv)
  from i have i': "\<forall>a \<in> set (acct_accounts s). a_key a \<in> set keys \<longrightarrow> a_isActive a"
    by (simp add: filter_empty_conv)
  from postJournal_success [OF l len dt memo c bal m' i', of now] assms(1)
  have r: "r_transactions r = map (transactionDoc (next_oid s) datetime now
                     (accountMap_of (filter (\<lambda>a. a_key a \<in> set keys) (acct_accounts s))))
                (enumerate (Suc (next_oid s)) lines)"
    and s': "s' = s \<lparr> acct_journals := acct_journals s @ [journalDoc_of data datetime now (next_oid s)],
         acct_transactions := acct_transactions s @
              map (transactionDoc (next_oid s) datetime now
                     (accountMap_of (filter (\<lambda>a. a_key a \<in> set keys) (acct_accounts s))))
                (enumerate (Suc (next_oid s)) lines),
         next_oid := Suc (next_oid s) + length lines \<rparr>"
    by auto
  have keys: "set keys = li_accountKey ` set lines"
    using check_lines_keys [OF c] by simp
  have known: "accountMap_of (acct_accounts s) k \<noteq> None" if "k \<in> set keys" for k
  proof -
    from m that have "accountMap_of (filter (\<lambda>a. a_key a \<in> set keys) (acct_accounts s)) k \<noteq> None"
      by (auto simp: filter_empty_conv)
    then show ?thesis
      by (auto simp: accountMap_of_None_iff)
  qed
  have new: "\<forall>t \<in> set (r_transactions r). accountMap_of (acct_accounts s) (t_accountKey t) \<noteq> None"
  proof
    fix t assume "t \<in> set (r_transactions r)"
    then obtain p where mem: "p \<in> set (enumerate (Suc (next_oid s)) lines)"
      and t: "t = transactionDoc (next_oid s) datetime now
                     (accountMap_of (filter (\<lambda>a. a_key a \<in> set keys) (acct_accounts s))) p"
      unfolding r by auto
    from mem have "snd p \<in> set (map snd (enumerate (Suc (next_oid s)) lines))"
      by (simp only: set_map) (rule imageI)
    then have "snd p \<in> set lines" by simp
    with keys have "li_accountKey (snd p) \<in> set keys" by simp
    with t show "accountMap_of (acct_accounts s) (t_accountKey t) \<noteq> None"
      by (simp add: known)
  qed
  with assms(2) show ?thesis
    unfolding s' accounts_known_def r [symmetric] by auto
qed

subsection \<open>Voiding\<close>

lemma findOneAndUpdate_fst: "fst (findOneAndUpdate P f xs) = find P xs"
  by (induction xs) (auto split: prod.splits)

lemma findOneAndUpdate_none: "find P xs = None \<Longrightarrow> snd (findOneAndUpdate P f xs) = xs"
  by (induction xs) (auto split: prod.splits if_splits)

lemma findOneAndUpdate_unique:
  "distinct (map g xs) \<Longrightarrow> (\<And>x. P x \<Longrightarrow> g x = k) \<Longrightarrow>
   snd (findOneAndUpdate P f xs) = map (\<lambda>x. if P x then f x else x) xs"
proof (induction xs)
  case Nil
  then show ?case by simp
next
  case (Cons x xs)
  show ?case
  proof (cases "P x")
    case True
    with Cons.prems have "\<forall>y \<in> set xs. \<not> P y"
      by (metis distinct.simps(2) image_eqI list.simps(9) set_map)
    then have "map (\<lambda>x. if P x then f x else x) xs = xs"
      by (induction xs) auto
    with True show ?thesis by simp
  next
    case False
    with Cons show ?thesis by (auto split: prod.splits)
  qed
qed

lemma voidJournal_success_iff:
  "fst (voidJournal jid reason now s) = Inr True
     \<longleftrightarrow> (\<exists>j \<in> set (acct_journals s). j_id j = jid \<and> \<not> j_voided j)"
proof -
  let ?P = "\<lambda>j. j_id j = jid \<and> j_voided j = False"
  let ?f = "\<lambda>j. j \<lparr> j_voided := True, j_voidReason := Some reason, j_updatedAt := now \<rparr>"
  have "fst (voidJournal jid reason now s) = Inr True \<longleftrightarrow> fst (findOneAndUpdate ?P ?f (acct_journals s)) \<noteq> None"
    by (auto simp: voidJournal_def split: prod.splits option.splits)
  also have "\<dots> \<longleftrightarrow> find ?P (acct_journals s) \<noteq> None"
    by (simp add: findOneAndUpdate_fst)
  also have "\<dots> \<longleftrightarrow> (\<exists>j \<in> set (acct_journals s). j_id j = jid \<and> \<not> j_voided j)"
    by (auto simp: find_None_iff)
  finally show ?thesis .
qed

lemma voidJournal_failure:
  "fst (voidJournal jid reason now s) \<noteq> Inr True \<Longrightarrow> voidJournal jid reason now s = (Inl ValidationError, s)"
  by (auto simp: voidJournal_def split: prod.splits option.splits)

lemma voidJournal_success_store:
  assumes "distinct (map j_id (acct_journals s))"
    and "fst (voidJournal jid reason now s) = Inr True"
  shows "snd (voidJournal jid reason now s) =
     s \<lparr> acct_journals := map (\<lambda>j. if j_id j = jid \<and> \<not> j_voided j then
              j \<lparr> j_voided := True, j_voidReason := Some reason, j_updatedAt := now \<rparr> else j) (acct_journals s),
        acct_transactions := map (\<lambda>t. if t_journalId t = jid then t \<lparr> t_voided := True, t_updatedAt := now \<rparr> else t)
              (acct_transactions s) \<rparr>"
proof -
  let ?P = "\<lambda>j. j_id j = jid \<and> j_voided j = False"
  let ?f = "\<lambda>j. j \<lparr> j_voided := True, j_voidReason := Some reason, j_updatedAt := now \<rparr>"
  have "snd (findOneAndUpdate ?P ?f (acct_journals s)) = map (\<lambda>x. if ?P x then ?f x else x) (acct_journals s)"
    by (rule findOneAndUpdate_unique [OF assms(1), where k = jid]) simp
  with assms(2) show ?thesis
    by (auto simp: voidJournal_def updateMany_def split: prod.splits option.splits)
qed

text \<open>
  Claim C4. Journal identifiers are unique in the journal collection. \<open>voidJournal\<close>
  succeeds exactly when the collection holds a journal with the given identifier that is
  not voided. On success the journal with that identifier is voided and carries the
  reason, every line of that journal is voided, and nothing else in the store changes
  but the update stamps of these documents. In every other case the call ends with
  \<open>ValidationError\<close> and the store, the journal and its lines included, is unchanged.
\<close>

theorem voidJournal_spec:
  assumes "distinct (map j_id (acct_journals s))"
  shows "(fst (voidJournal jid reason now s) = Inr True
            \<longleftrightarrow> (\<exists>j \<in> set (acct_journals s). j_id j = jid \<and> \<not> j_voided j))
     \<and> (fst (voidJournal jid reason now s) = Inr True \<longrightarrow>
          (\<forall>j \<in> set (acct_journals (snd (voidJournal jid reason now s))).
              j_id j = jid \<longrightarrow> j_voided j \<and> j_voidReason j = Some reason)
        \<and> (\<forall>t \<in> set (acct_transactions (snd (voidJournal jid reason now s))).
              t_journalId t = jid \<longrightarrow> t_voided t)
        \<and> snd (voidJournal jid reason now s) =
            s \<lparr> acct_journals := map (\<lambda>j. if j_id j = jid \<and> \<not> j_voided j
                    then j \<lparr> j_voided := True, j_voidReason := Some reason, j_updatedAt := now \<rparr> else j)
                    (acct_journals s),
               acct_transactions := map (\<lambda>t. if t_journalId t = jid
                    then t \<lparr> t_voided := True, t_updatedAt := now \<rparr> else t) (acct_transactions s) \<rparr>)
     \<and> (fst (voidJournal jid reason now s) \<noteq> Inr True \<longrightarrow>
          voidJournal jid reason now s = (Inl ValidationError, s))"
proof (intro conjI impI)
  show "fst (voidJournal jid reason now s) = Inr True
            \<longleftrightarrow> (\<exists>j \<in> set (acct_journals s). j_id j = jid \<and> \<not> j_voided j)"
    by (rule voidJournal_success_iff)
next
  assume ok: "fst (voidJournal jid reason now s) = Inr True"
  note st = voidJournal_success_store [OF assms ok]
  from ok obtain j0 where j0: "j0 \<in> set (acct_journals s)" "j_id j0 = jid" "\<not> j_voided j0"
    by (auto simp: voidJournal_success_iff)
  have inj: "inj_on j_id (set (acct_journals s))"
    using assms by (simp add: distinct_map)
  have "j = j0" if "j \<in> set (acct_journals s)" "j_id j = jid" for j
    using inj_onD [OF inj, of j j0] that j0 by simp
  with j0 have uniq: "\<forall>j \<in> set (acct_journals s). j_id j = jid \<longrightarrow> \<not> j_voided j"
    by blast
  let ?vj = "\<lambda>j. if j_id j = jid \<and> \<not> j_voided j
                then j \<lparr> j_voided := True, j_voidReason := Some reason, j_updatedAt := now \<rparr> else j"
  let ?vt = "\<lambda>t. if t_journalId t = jid then t \<lparr> t_voided := True, t_updatedAt := now \<rparr> else t"
  have js: "acct_journals (snd (voidJournal jid reason now s)) = map ?vj (acct_journals s)"
    by (subst st) simp
  have ts: "acct_transactions (snd (voidJournal jid reason now s)) = map ?vt (acct_transactions s)"
    by (subst st) simp
  show "\<forall>j \<in> set (acct_journals (snd (voidJournal jid reason now s))).
              j_id j = jid \<longrightarrow> j_voided j \<and> j_voidReason j = Some reason"
  proof (intro ballI impI)
    fix j assume "j \<in> set (acct_journals (snd (voidJournal jid reason now s)))" and jid: "j_id j = jid"
    then have "j \<in> ?vj ` set (acct_journals s)"
      by (simp only: js set_map)
    then obtain j' where j': "j = ?vj j'" "j' \<in> set (acct_journals s)"
      by (rule imageE)
    have "j_id (?vj j') = j_id j'" by simp
    with j' jid uniq have "\<not> j_voided j'" "j_id j' = jid" by auto
    with j' show "j_voided j \<and> j_voidReason j = Some reason" by simp
  qed
  show "\<forall>t \<in> set (acct_transactions (snd (voidJournal jid reason now s))).
              t_journalId t = jid \<longrightarrow> t_voided t"
  proof (intro ballI impI)
    fix t assume "t \<in> set (acct_transactions (snd (voidJournal jid reason now s)))" and tj: "t_journalId t = jid"
    then have "t \<in> ?vt ` set (acct_transactions s)"
      by (simp only: ts set_map)
    then obtain t' where t': "t = ?vt t'" "t' \<in> set (acct_transactions s)"
      by (rule imageE)
    have "t_journalId (?vt t') = t_journalId t'" by simp
    with t' tj show "t_voided t" by simp
  qed
  show "snd (voidJournal jid reason now s) =
            s \<lparr> acct_journals := map (\<lambda>j. if j_id j = jid \<and> \<not> j_voided j
                    then j \<lparr> j_voided := True, j_voidReason := Some reason, j_updatedAt := now \<rparr> else j)
                    (acct_journals s),
               acct_transactions := map (\<lambda>t. if t_journalId t = jid
                    then t \<lparr> t_voided := True, t_updatedAt := now \<rparr> else t) (acct_transactions s) \<rparr>"
    by (rule st)
next
  assume "fst (voidJournal jid reason now s) \<noteq> Inr True"
  then show "voidJournal jid reason now s = (Inl ValidationError, s)"
    by (rule voidJournal_failure)
qed

theorem voidJournal_spec_witness:
  "distinct (map j_id (acct_journals store1))
   \<and> fst (voidJournal 10 ''duplicate'' 2000 store1) = Inr True
   \<and> map j_voided (acct_journals (snd (voidJournal 10 ''duplicate'' 2000 store1))) = [True]
   \<and> map j_voidReason (acct_journals (snd (voidJournal 10 ''duplicate'' 2000 store1))) = [Some ''duplicate'']
   \<and> map t_voided (acct_transactions (snd (voidJournal 10 ''duplicate'' 2000 store1))) = [True, True]
   \<and> voidJournal 13 ''duplicate'' 2000 store1 = (Inl ValidationError, store1)"
proof -
  have d: "distinct (map j_id (acct_journals store1))"
    by (simp add: store1_def)
  have a: "\<exists>j \<in> set (acct_journals store1). j_id j = 10 \<and> \<not> j_voided j"
    by (simp add: store1_def jrnl_def)
  have b: "\<not> (\<exists>j \<in> set (acct_journals store1). j_id j = 13 \<and> \<not> j_voided j)"
    by (simp add: store1_def jrnl_def)
  from voidJournal_spec [OF d, of 10 "''duplicate''" 2000] a
  have ok: "fst (voidJournal 10 ''duplicate'' 2000 store1) = Inr True"
    and st: "snd (voidJournal 10 ''duplicate'' 2000 store1) =
      store1 \<lparr> acct_journals := map (\<lambda>j. if j_id j = 10 \<and> \<not> j_voided j
                    then j \<lparr> j_voided := True, j_voidReason := Some ''duplicate'', j_updatedAt := 2000 \<rparr> else j)
                    (acct_journals store1),
               acct_transactions := map (\<lambda>t. if t_journalId t = 10
                    then t \<lparr> t_voided := True, t_updatedAt := 2000 \<rparr> else t) (acct_transactions store1) \<rparr>"
    by blast+
  from voidJournal_spec [OF d, of 13 "''duplicate''" 2000] b
  have no: "voidJournal 13 ''duplicate'' 2000 store1 = (Inl ValidationError, store1)"
    by blast
  have "map j_voided (acct_journals (snd (voidJournal 10 ''duplicate'' 2000 store1))) = [True]"
    "map j_voidReason (acct_journals (snd (voidJournal 10 ''duplicate'' 2000 store1))) = [Some ''duplicate'']"
    "map t_voided (acct_transactions (snd (voidJournal 10 ''duplicate'' 2000 store1))) = [True, True]"
    unfolding st by (simp_all add: store1_def jrnl_def txl_def)
  with d ok no show ?thesis by simp
qed

subsection \<open>Bulk voiding\<close>

lemma updateMany_none: "\<forall>x \<in> set xs. \<not> P x \<Longrightarrow> updateMany P f xs = xs"
  by (induction xs) (auto simp: updateMany_def)

lemma voidJournalsByIdentifier_result:
  "fst (voidJournalsByIdentifier identifier reason now s) =
     Inr \<lparr> journalsVoided = length (selected_journals identifier s),
           transactionsVoided = length (lines_of_journals (selected_journals identifier s) s) \<rparr>"
  by (simp add: voidJournalsByIdentifier_def Let_def selected_journals_def lines_of_journals_def)

lemma voidJournalsByIdentifier_no_match:
  assumes "selected_journals identifier s = []"
  shows "voidJournalsByIdentifier identifier reason now s =
           (Inr \<lparr> journalsVoided = 0, transactionsVoided = 0 \<rparr>, s)"
proof -
  from assms have sel: "filter (\<lambda>j. identifies identifier j \<and> j_voided j = False) (acct_journals s) = []"
    by (simp add: selected_journals_def)
  then have none: "\<forall>j \<in> set (acct_journals s). \<not> (identifies identifier j \<and> j_voided j = False)"
    by (simp add: filter_empty_conv)
  have j: "updateMany (\<lambda>j. identifies identifier j \<and> j_voided j = False)
             (\<lambda>j. j \<lparr> j_voided := True, j_voidReason := Some reason, j_updatedAt := now \<rparr>) (acct_journals s)
           = acct_journals s"
    by (rule updateMany_none) (rule none)
  have t: "updateMany (\<lambda>t. t_journalId t \<in> set (map j_id []))
             (\<lambda>t. t \<lparr> t_voided := True, t_updatedAt := now \<rparr>) (acct_transactions s)
           = acct_transactions s"
    by (rule updateMany_none) simp
  show ?thesis
    unfolding voidJournalsByIdentifier_def Let_def sel j t by simp
qed

lemma voidJournalsByIdentifier_voids:
  assumes "snd (voidJournalsByIdentifier identifier reason now s) = s'"
  shows "(\<forall>j \<in> set (acct_journals s'). identifies identifier j \<longrightarrow> j_voided j)
    \<and> (\<forall>t \<in> set (acct_transactions s').
          t_journalId t \<in> j_id ` set (selected_journals identifier s) \<longrightarrow> t_voided t)"
proof -
  let ?P = "\<lambda>j. identifies identifier j \<and> j_voided j = False"
  let ?f = "\<lambda>j. j \<lparr> j_voided := True, j_voidReason := Some reason, j_updatedAt := now \<rparr>"
  let ?ids = "map j_id (filter ?P (acct_journals s))"
  let ?g = "\<lambda>t. t \<lparr> t_voided := True, t_updatedAt := now \<rparr>"
  have js: "acct_journals s' = map (\<lambda>x. if ?P x then ?f x else x) (acct_journals s)"
    and ts: "acct_transactions s' = map (\<lambda>t. if t_journalId t \<in> set ?ids then ?g t else t) (acct_transactions s)"
    using assms by (auto simp: voidJournalsByIdentifier_def Let_def updateMany_def)
  have idf: "identifies identifier (?f j) = identifies identifier j" for j
    by (simp add: identifies_def split: JournalIdentifier.splits)
  have 1: "\<forall>j \<in> set (acct_journals s'). identifies identifier j \<longrightarrow> j_voided j"
  proof (intro ballI impI)
    fix j assume "j \<in> set (acct_journals s')" and i: "identifies identifier j"
    then have "j \<in> (\<lambda>x. if ?P x then ?f x else x) ` set (acct_journals s)"
      by (simp only: js set_map)
    then obtain j' where j': "j = (if ?P j' then ?f j' else j')" "j' \<in> set (acct_journals s)"
      by (rule imageE)
    show "j_voided j"
    proof (cases "?P j'")
      case True
      with j' show ?thesis by simp
    next
      case False
      with j' i show ?thesis by auto
    qed
  qed
  have 2: "\<forall>t \<in> set (acct_transactions s').
          t_journalId t \<in> j_id ` set (selected_journals identifier s) \<longrightarrow> t_voided t"
  proof (intro ballI impI)
    fix t assume "t \<in> set (acct_transactions s')"
      and c: "t_journalId t \<in> j_id ` set (selected_journals identifier s)"
    then have "t \<in> (\<lambda>t. if t_journalId t \<in> set ?ids then ?g t else t) ` set (acct_transactions s)"
      by (simp only: ts set_map)
    then obtain t' where t': "t = (if t_journalId t' \<in> set ?ids then ?g t' else t')" "t' \<in> set (acct_transactions s)"
      by (rule imageE)
    have same: "t_journalId t = t_journalId t'"
      using t'(1) by (cases "t_journalId t' \<in> set ?ids") simp_all
    from c have "t_journalId t \<in> set ?ids" by (simp add: selected_journals_def)
    with same have "t_journalId t' \<in> set ?ids" by simp
    with t'(1) show "t_voided t" by simp
  qed
  from 1 2 show ?thesis by blast
qed

text \<open>
  Claim C9. \<open>voidJournalsByIdentifier\<close> voids the unvoided journals selected by a
  journal identifier or by a pair of reference type and reference identifier, together
  with their lines, and returns the number of journals and the number of lines voided.
  When no journal is selected it returns zero counts, without error, and leaves the
  store as it is.
\<close>

theorem voidJournalsByIdentifier_counts:
  "fst (voidJournalsByIdentifier identifier reason now s) =
     Inr \<lparr> journalsVoided = length (selected_journals identifier s),
           transactionsVoided = length (lines_of_journals (selected_journals identifier s) s) \<rparr>
   \<and> (\<forall>j \<in> set (acct_journals (snd (voidJournalsByIdentifier identifier reason now s))).
         identifies identifier j \<longrightarrow> j_voided j)
   \<and> (\<forall>t \<in> set (acct_transactions (snd (voidJournalsByIdentifier identifier reason now s))).
         t_journalId t \<in> j_id ` set (selected_journals identifier s) \<longrightarrow> t_voided t)
   \<and> (selected_journals identifier s = [] \<longrightarrow>
         voidJournalsByIdentifier identifier reason now s =
           (Inr \<lparr> journalsVoided = 0, transactionsVoided = 0 \<rparr>, s))"
  using voidJournalsByIdentifier_result [of "identifier" "reason" "now" "s"]
    voidJournalsByIdentifier_voids [OF refl, of "identifier" "reason" "now" "s"]
    voidJournalsByIdentifier_no_match [of "identifier" "s" "reason" "now"]
  by blast

theorem voidJournalsByIdentifier_counts_witness:
  "fst (voidJournalsByIdentifier (ByReference ''opening_balance'' ''CASH'') ''reissue'' 2000 store1)
     = Inr \<lparr> journalsVoided = 1, transactionsVoided = 2 \<rparr>
   \<and> selected_journals (ByJournalId 99) store1 = []
   \<and> voidJournalsByIdentifier (ByJournalId 99) ''reissue'' 2000 store1
       = (Inr \<lparr> journalsVoided = 0, transactionsVoided = 0 \<rparr>, store1)"
proof -
  have a: "selected_journals (ByJournalId 99) store1 = []"
    by (simp add: selected_journals_def store1_def jrnl_def identifies_def)
  have b: "length (selected_journals (ByReference ''opening_balance'' ''CASH'') store1) = 1"
    by (simp add: selected_journals_def store1_def jrnl_def identifies_def)
  have c: "length (lines_of_journals (selected_journals (ByReference ''opening_balance'' ''CASH'') store1) store1) = 2"
    by (simp add: lines_of_journals_def selected_journals_def store1_def jrnl_def txl_def identifies_def)
  from voidJournalsByIdentifier_counts [of "ByReference ''opening_balance'' ''CASH''" "''reissue''" 2000 store1]
    voidJournalsByIdentifier_counts [of "ByJournalId 99" "''reissue''" 2000 store1] a b c
  show ?thesis by simp
qed

section \<open>Properties of the account hierarchy manager\<close>

subsection \<open>Creating accounts\<close>

lemma parseInt_12abc: "parseInt ''12abc'' = Some 12"
  by (simp add: parseInt_def is_space_def is_digit_def digits_value_def)

lemma validateAccountStructure_ok_iff:
  "validateAccountStructure data = Inr () \<longleftrightarrow>
     \<not> missing_field data
     \<and> (\<exists>c. ca_code data = Some c \<and> parseInt c \<noteq> None)
     \<and> (\<exists>ty pg. ca_type data = Some ty \<and> ca_parentGroup data = Some pg \<and> consistent ty pg)"
proof (cases "missing_field data")
  case True
  then show ?thesis by (auto simp: validateAccountStructure_def missing_field_def)
next
  case False
  then obtain c ty pg where f: "ca_code data = Some c" "ca_type data = Some ty" "ca_parentGroup data = Some pg"
    by (auto simp: missing_field_def truthy_def split: option.splits)
  from False have nm: "\<not> (\<not> truthy (ca_key data) \<or> \<not> truthy (ca_code data) \<or> \<not> truthy (ca_name data)
      \<or> ca_type data = None \<or> ca_parentGroup data = None \<or> \<not> truthy (ca_group data))"
    by (simp add: missing_field_def)
  show ?thesis
    unfolding validateAccountStructure_def if_not_P [OF nm]
    using False f by (cases ty; cases pg) (auto simp: consistent_def)
qed

lemma validateAccountStructure_error:
  "validateAccountStructure data = Inl e \<Longrightarrow> e = ValidationError"
  by (auto simp: validateAccountStructure_def split: if_splits)

lemma createAccount_rejects:
  assumes "missing_field data
     \<or> (\<exists>c. ca_code data = Some c \<and> parseInt c = None)
     \<or> (\<exists>ty pg. ca_type data = Some ty \<and> ca_parentGroup data = Some pg \<and> \<not> consistent ty pg)
     \<or> (truthy (ca_parentAccountKey data)
         \<and> (\<forall>a \<in> set (acct_accounts s). Some (a_key a) \<noteq> ca_parentAccountKey data))
     \<or> (\<exists>a \<in> set (acct_accounts s). Some (a_key a) = ca_key data \<or> Some (a_code a) = ca_code data)"
  shows "createAccount (Some data) now s = (Inl ValidationError, s)"
proof (cases "validateAccountStructure data")
  case (Inl e)
  with validateAccountStructure_error [OF Inl] show ?thesis
    by (simp add: createAccount_def)
next
  case (Inr u)
  then have ok: "validateAccountStructure data = Inr ()" by simp
  from ok [unfolded validateAccountStructure_ok_iff] assms
  have "(truthy (ca_parentAccountKey data)
          \<and> find (\<lambda>a. Some (a_key a) = ca_parentAccountKey data) (acct_accounts s) = None)
     \<or> find (\<lambda>a. Some (a_key a) = ca_key data \<or> Some (a_code a) = ca_code data) (acct_accounts s) \<noteq> None"
    by (auto simp: find_None_iff)
  with ok show ?thesis
    by (auto simp: createAccount_def)
qed

lemma createAccount_accepted:
  assumes "createAccount data_opt now s = (Inr a, s')"
  shows "a_isActive a \<and> acct_accounts s' = acct_accounts s @ [a]"
  using assms
  by (auto simp: createAccount_def Let_def split: option.splits sum.splits if_splits)

text \<open>
  Claim C6. \<open>createAccount\<close> is to refuse a code that is not a numeric string. The
  code \<open>12abc\<close> is not a numeric string, yet \<open>parseInt\<close> reads its leading digits, the
  \<open>isNaN\<close> test passes, and on the empty store the account is accepted and persisted
  with that code.
\<close>

theorem createAccount_accepts_non_numeric_code:
  "\<not> numeric_string ''12abc''
   \<and> createAccount (Some (account_in ''PETTY'' ''12abc'' TAsset GAsset)) 7 store0
       = (Inr petty_doc, store0 \<lparr> acct_accounts := [petty_doc], next_oid := 1 \<rparr>)"
proof -
  have "\<not> numeric_string ''12abc''"
    by (simp add: numeric_string_def is_digit_def)
  moreover have "validateAccountStructure (account_in ''PETTY'' ''12abc'' TAsset GAsset) = Inr ()"
    by (simp add: validateAccountStructure_def account_in_def truthy_def parseInt_12abc)
  then have "createAccount (Some (account_in ''PETTY'' ''12abc'' TAsset GAsset)) 7 store0
       = (Inr petty_doc, store0 \<lparr> acct_accounts := [petty_doc], next_oid := 1 \<rparr>)"
    by (simp add: createAccount_def account_in_def store0_def truthy_def petty_doc_def Let_def)
  ultimately show ?thesis by simp
qed

subsection \<open>Reassigning the parent\<close>

declare validateParent_loop.simps [simp del]

lemma reaches_Nil [simp]: "\<not> reaches a visited []"
  by (simp add: reaches_def)

lemma reaches_Cons:
  "reaches a visited (k # ch) \<longleftrightarrow> k = a \<or> (k \<notin> set visited \<and> reaches a (k # visited) ch)"
proof
  assume "reaches a visited (k # ch)"
  then obtain i where i: "i < length (k # ch)" "(k # ch) ! i = a" "distinct (take i (k # ch))"
    "set (take i (k # ch)) \<inter> set visited = {}"
    by (auto simp: reaches_def)
  show "k = a \<or> (k \<notin> set visited \<and> reaches a (k # visited) ch)"
  proof (cases i)
    case 0
    with i show ?thesis by simp
  next
    case (Suc j)
    with i have "j < length ch" "ch ! j = a" "distinct (take j ch)" "k \<notin> set (take j ch)"
      "k \<notin> set visited" "set (take j ch) \<inter> set visited = {}"
      by auto
    then have "k \<notin> set visited \<and> reaches a (k # visited) ch"
      unfolding reaches_def by auto
    then show ?thesis ..
  qed
next
  assume "k = a \<or> (k \<notin> set visited \<and> reaches a (k # visited) ch)"
  then show "reaches a visited (k # ch)"
  proof
    assume "k = a"
    then have "0 < length (k # ch) \<and> (k # ch) ! 0 = a \<and> distinct (take 0 (k # ch))
        \<and> set (take 0 (k # ch)) \<inter> set visited = {}" by simp
    then show ?thesis unfolding reaches_def by blast
  next
    assume "k \<notin> set visited \<and> reaches a (k # visited) ch"
    then obtain j where j: "k \<notin> set visited" "j < length ch" "ch ! j = a" "distinct (take j ch)"
      "set (take j ch) \<inter> set (k # visited) = {}"
      by (auto simp: reaches_def)
    then have "Suc j < length (k # ch) \<and> (k # ch) ! Suc j = a \<and> distinct (take (Suc j) (k # ch))
        \<and> set (take (Suc j) (k # ch)) \<inter> set visited = {}" by auto
    then show ?thesis unfolding reaches_def by blast
  qed
qed

lemma validateParent_loop_chain:
  "depth \<le> MAX_DEPTH \<Longrightarrow> n = Suc MAX_DEPTH - depth \<Longrightarrow>
   validateParent_loop accounts a cur visited depth =
     (if reaches a visited (ancestor_chain accounts cur n) then Inl ValidationError else Inr ())"
proof (induction n arbitrary: cur visited depth)
  case 0
  then show ?case by simp
next
  case (Suc m)
  show ?case
  proof (cases "truthy cur")
    case False
    then have "ancestor_chain accounts cur (Suc m) = []"
      by (auto simp: truthy_def split: option.splits)
    with False show ?thesis
      by (subst validateParent_loop.simps) simp
  next
    case True
    then obtain k where k: "cur = Some k" "k \<noteq> []"
      by (auto simp: truthy_def split: option.splits)
    show ?thesis
    proof (cases "k = a")
      case True
      with k \<open>truthy cur\<close> show ?thesis
        by (subst validateParent_loop.simps) (simp add: reaches_Cons)
    next
      case ka: False
      show ?thesis
      proof (cases "k \<in> set visited")
        case True
        with k ka \<open>truthy cur\<close> show ?thesis
          by (subst validateParent_loop.simps) (auto simp: reaches_Cons)
      next
        case kv: False
        show ?thesis
        proof (cases "findByKey accounts k")
          case None
          with k ka kv \<open>truthy cur\<close> show ?thesis
            by (subst validateParent_loop.simps) (auto simp: reaches_Cons)
        next
          case (Some node)
          show ?thesis
          proof (cases "Suc depth > MAX_DEPTH")
            case True
            with Suc.prems have "m = 0" by simp
            with k ka kv Some True \<open>truthy cur\<close> show ?thesis
              by (subst validateParent_loop.simps) (auto simp: reaches_Cons)
          next
            case False
            with Suc.prems have d: "Suc depth \<le> MAX_DEPTH" "m = Suc MAX_DEPTH - Suc depth"
              by simp_all
            note IH = Suc.IH [OF d, of "a_parentAccountKey node" "k # visited"]
            from k ka kv Some False \<open>truthy cur\<close> show ?thesis
              by (subst validateParent_loop.simps) (auto simp: reaches_Cons IH)
          qed
        qed
      qed
    qed
  qed
qed

lemma length_ancestor_chain: "length (ancestor_chain accounts cur n) \<le> n"
  by (induction n arbitrary: cur) (auto split: option.splits)

lemma length_ancestors_of: "length (ancestors_of accounts parentKey) \<le> Suc MAX_DEPTH"
  by (simp add: ancestors_of_def length_ancestor_chain split: option.splits)

lemma validateParent_verdict:
  assumes "parentKey \<noteq> []"
  shows "validateParent accounts accountKey (Some parentKey) =
     (if accountKey = parentKey \<or> findByKey accounts parentKey = None
         \<or> reaches accountKey [parentKey] (ancestors_of accounts parentKey)
      then Inl ValidationError else Inr ())"
proof (cases "findByKey accounts parentKey")
  case None
  with assms show ?thesis by (simp add: validateParent_def)
next
  case (Some parent)
  have "validateParent_loop accounts accountKey (a_parentAccountKey parent) [parentKey] 0 =
     (if reaches accountKey [parentKey] (ancestor_chain accounts (a_parentAccountKey parent) (Suc MAX_DEPTH))
      then Inl ValidationError else Inr ())"
    by (rule validateParent_loop_chain) simp_all
  with assms Some show ?thesis
    by (simp add: validateParent_def ancestors_of_def)
qed

lemma find_findOneAndUpdate:
  "find P xs = Some a \<Longrightarrow> P (f a) \<Longrightarrow> find P (snd (findOneAndUpdate P f xs)) = Some (f a)"
  by (induction xs) (auto split: prod.splits)

lemma a_key_updateFields [simp]: "a_key (updateFields data now a) = a_key a"
  by (simp add: updateFields_def)

lemma updateAccount_invalid_parent:
  assumes "ua_key data = Some key" "key \<noteq> []" "ua_parentAccountKey data = Some (Some parentKey)"
    and "validateParent (acct_accounts s) key (Some parentKey) = Inl e"
  shows "updateAccount (Some data) now s = (Inl e, s)"
  using assms by (simp add: updateAccount_def)

lemma updateAccount_valid_parent:
  assumes "ua_key data = Some key" "key \<noteq> []" "ua_parentAccountKey data = Some (Some parentKey)"
    and "validateParent (acct_accounts s) key (Some parentKey) = Inr ()"
    and "findByKey (acct_accounts s) key = Some a"
  shows "fst (updateAccount (Some data) now s) = Inr (updateFields data now a)"
    and "a_parentAccountKey (updateFields data now a) = Some parentKey"
    and "findByKey (acct_accounts (snd (updateAccount (Some data) now s))) key = Some (updateFields data now a)"
proof -
  let ?P = "\<lambda>a. a_key a = key"
  from assms(5) have f: "find ?P (acct_accounts s) = Some a"
    by (simp add: findByKey_def)
  then have "fst (findOneAndUpdate ?P (updateFields data now) (acct_accounts s)) = Some a"
    by (simp add: findOneAndUpdate_fst)
  then obtain accounts' where u: "findOneAndUpdate ?P (updateFields data now) (acct_accounts s) = (Some a, accounts')"
    by (cases "findOneAndUpdate ?P (updateFields data now) (acct_accounts s)") simp
  from f have "a_key a = key" by (auto dest: find_Some_iff [THEN iffD1])
  with find_findOneAndUpdate [OF f, of "updateFields data now"] u
  have k: "find ?P accounts' = Some (updateFields data now a)" by simp
  from assms(1-4) u show "fst (updateAccount (Some data) now s) = Inr (updateFields data now a)"
    by (simp add: updateAccount_def)
  from assms(3) show "a_parentAccountKey (updateFields data now a) = Some parentKey"
    by (simp add: updateFields_def)
  from assms(1-4) u k
  show "findByKey (acct_accounts (snd (updateAccount (Some data) now s))) key = Some (updateFields data now a)"
    by (simp add: updateAccount_def findByKey_def)
qed

lemma not_reaches_unrelated: "accountKey \<notin> set chain \<Longrightarrow> \<not> reaches accountKey visited chain"
  by (auto simp: reaches_def)

text \<open>
  Claim C7. An update that sets the parent of account \<open>key\<close> to \<open>parentKey\<close> is refused
  with \<open>ValidationError\<close>, and changes nothing, when the two keys are equal or when the
  walk up the ancestors of the parent, begun at the parent's own parent, reaches \<open>key\<close>
  before any key repeats. The walk looks at no more than \<open>MAX_DEPTH + 1\<close> ancestors.
  When the parent exists and the walk does not reach \<open>key\<close> (a key repeated first, or
  the candidate is not among the ancestors looked at), the validation ends without error.
  Reassigning an existing account to an existing parent that does not have it among
  these ancestors succeeds: the account returned and stored has the new parent.
\<close>

theorem updateAccount_parent_validation:
  assumes "ua_key data = Some key" and "key \<noteq> []"
    and "ua_parentAccountKey data = Some (Some parentKey)" and "parentKey \<noteq> []"
  shows "(key = parentKey \<or> reaches key [parentKey] (ancestors_of (acct_accounts s) parentKey)
            \<longrightarrow> updateAccount (Some data) now s = (Inl ValidationError, s))
     \<and> length (ancestors_of (acct_accounts s) parentKey) \<le> Suc MAX_DEPTH
     \<and> (key \<noteq> parentKey \<and> findByKey (acct_accounts s) parentKey \<noteq> None
          \<and> \<not> reaches key [parentKey] (ancestors_of (acct_accounts s) parentKey)
            \<longrightarrow> validateParent (acct_accounts s) key (Some parentKey) = Inr ())
     \<and> (key \<noteq> parentKey \<and> findByKey (acct_accounts s) parentKey \<noteq> None
          \<and> key \<notin> set (ancestors_of (acct_accounts s) parentKey)
          \<and> findByKey (acct_accounts s) key = Some a
            \<longrightarrow> fst (updateAccount (Some data) now s) = Inr (updateFields data now a)
              \<and> a_parentAccountKey (updateFields data now a) = Some parentKey
              \<and> findByKey (acct_accounts (snd (updateAccount (Some data) now s))) key
                  = Some (updateFields data now a))"
proof (intro conjI impI)
  assume "key = parentKey \<or> reaches key [parentKey] (ancestors_of (acct_accounts s) parentKey)"
  then have "validateParent (acct_accounts s) key (Some parentKey) = Inl ValidationError"
    by (auto simp: validateParent_verdict [OF assms(4)])
  from updateAccount_invalid_parent [OF assms(1-3) this]
  show "updateAccount (Some data) now s = (Inl ValidationError, s)" .
next
  show "length (ancestors_of (acct_accounts s) parentKey) \<le> Suc MAX_DEPTH"
    by (rule length_ancestors_of)
next
  assume "key \<noteq> parentKey \<and> findByKey (acct_accounts s) parentKey \<noteq> None
          \<and> \<not> reaches key [parentKey] (ancestors_of (acct_accounts s) parentKey)"
  then show "validateParent (acct_accounts s) key (Some parentKey) = Inr ()"
    by (simp add: validateParent_verdict [OF assms(4)])
next
  assume h: "key \<noteq> parentKey \<and> findByKey (acct_accounts s) parentKey \<noteq> None
          \<and> key \<notin> set (ancestors_of (acct_accounts s) parentKey)
          \<and> findByKey (acct_accounts s) key = Some a"
  then have "\<not> reaches key [parentKey] (ancestors_of (acct_accounts s) parentKey)"
    by (simp add: not_reaches_unrelated)
  with h have v: "validateParent (acct_accounts s) key (Some parentKey) = Inr ()"
    by (simp add: validateParent_verdict [OF assms(4)])
  from h have a: "findByKey (acct_accounts s) key = Some a" by simp
  show "fst (updateAccount (Some data) now s) = Inr (updateFields data now a)"
    by (rule updateAccount_valid_parent(1) [OF assms(1-3) v a])
  show "a_parentAccountKey (updateFields data now a) = Some parentKey"
    by (rule updateAccount_valid_parent(2) [OF assms(1-3) v a])
  show "findByKey (acct_accounts (snd (updateAccount (Some data) now s))) key
                  = Some (updateFields data now a)"
    by (rule updateAccount_valid_parent(3) [OF assms(1-3) v a])
qed

lemma chain_C: "ancestors_of chart_abc ''C'' = [''B'', ''A'']"
  by (simp add: ancestors_of_def chart_abc_def findByKey_def acct_def child_of_def MAX_DEPTH_def
      eval_nat_numeral)

lemma chain_D: "ancestors_of chart_abc ''D'' = []"
  by (simp add: ancestors_of_def chart_abc_def findByKey_def acct_def child_of_def)

lemma ancestor_chain_two:
  "findByKey accounts k1 = Some n1 \<Longrightarrow> k1 \<noteq> [] \<Longrightarrow> a_parentAccountKey n1 = Some k2 \<Longrightarrow> k2 \<noteq> [] \<Longrightarrow>
   \<exists>rest. ancestor_chain accounts (Some k1) (Suc (Suc n)) = k1 # k2 # rest"
  by simp

lemma chain_loop:
  "\<exists>rest. ancestors_of chart_loop ''X'' = ''Y'' # ''X'' # rest"
proof -
  have m: "Suc MAX_DEPTH = Suc (Suc 99)" by (simp add: MAX_DEPTH_def)
  have x: "findByKey chart_loop ''X'' = Some (child_of (acct 1 ''X'' ''1001'' TAsset GAsset) ''Y'')"
    by (simp add: chart_loop_def findByKey_def acct_def child_of_def)
  have y: "findByKey chart_loop ''Y'' = Some (child_of (acct 2 ''Y'' ''1002'' TAsset GAsset) ''X'')"
    by (simp add: chart_loop_def findByKey_def acct_def child_of_def)
  have "\<exists>rest. ancestor_chain chart_loop (Some ''Y'') (Suc (Suc 99)) = ''Y'' # ''X'' # rest"
    by (rule ancestor_chain_two [OF y]) (simp_all add: child_of_def)
  then show ?thesis
    unfolding ancestors_of_def x m by (simp add: child_of_def)
qed

theorem updateAccount_parent_validation_witness:
  "reaches ''A'' [''C''] (ancestors_of (acct_accounts store_abc) ''C'')
   \<and> updateAccount (Some (reparent ''A'' ''C'')) 9 store_abc = (Inl ValidationError, store_abc)
   \<and> updateAccount (Some (reparent ''A'' ''A'')) 9 store_abc = (Inl ValidationError, store_abc)
   \<and> ''A'' \<notin> set (ancestors_of (acct_accounts store_abc) ''D'')
   \<and> validateParent (acct_accounts store_abc) ''A'' (Some ''D'') = Inr ()
   \<and> fst (updateAccount (Some (reparent ''A'' ''D'')) 9 store_abc)
       = Inr (updateFields (reparent ''A'' ''D'') 9 (acct 1 ''A'' ''1001'' TAsset GAsset))
   \<and> a_parentAccountKey (updateFields (reparent ''A'' ''D'') 9 (acct 1 ''A'' ''1001'' TAsset GAsset)) = Some ''D''
   \<and> \<not> reaches ''A'' [''X''] (ancestors_of chart_loop ''X'')
   \<and> validateParent chart_loop ''A'' (Some ''X'') = Inr ()"
proof -
  have accs: "acct_accounts store_abc = chart_abc"
    by (simp add: store_abc_def)
  have r: "reaches ''A'' [''C''] (ancestors_of (acct_accounts store_abc) ''C'')"
    by (simp add: accs chain_C reaches_Cons)
  have d: "''A'' \<notin> set (ancestors_of (acct_accounts store_abc) ''D'')"
    by (simp add: accs chain_D)
  have fa: "findByKey (acct_accounts store_abc) ''A'' = Some (acct 1 ''A'' ''1001'' TAsset GAsset)"
    by (simp add: accs chart_abc_def findByKey_def acct_def)
  have fd: "findByKey (acct_accounts store_abc) ''D'' \<noteq> None"
    by (simp add: accs chart_abc_def findByKey_def acct_def child_of_def)
  have nr: "\<not> reaches ''A'' [''D''] (ancestors_of (acct_accounts store_abc) ''D'')"
    by (simp add: accs chain_D)
  have k: "ua_key (reparent ''A'' p) = Some ''A''" "ua_parentAccountKey (reparent ''A'' p) = Some (Some p)" for p
    by (simp_all add: reparent_def)
  have l: "\<not> reaches ''A'' [''X''] (ancestors_of chart_loop ''X'')"
    using chain_loop by (auto simp: reaches_Cons)
  have fx: "findByKey (acct_accounts (store_abc \<lparr> acct_accounts := chart_loop \<rparr>)) ''X'' \<noteq> None"
    by (simp add: chart_loop_def findByKey_def acct_def child_of_def)
  note t1 = updateAccount_parent_validation [OF k(1) _ k(2), where ?s = store_abc and ?now = 9, of "''C''"]
  note t2 = updateAccount_parent_validation [OF k(1) _ k(2), where ?s = store_abc and ?now = 9, of "''A''"]
  note t3 = updateAccount_parent_validation [OF k(1) _ k(2), where ?s = store_abc and ?now = 9
      and ?a = "acct 1 ''A'' ''1001'' TAsset GAsset", of "''D''"]
  note t4 = updateAccount_parent_validation [OF k(1) _ k(2),
      where ?s = "store_abc \<lparr> acct_accounts := chart_loop \<rparr>" and ?now = 9, of "''X''"]
  from t1 r have 1: "updateAccount (Some (reparent ''A'' ''C'')) 9 store_abc = (Inl ValidationError, store_abc)"
    by simp
  from t2 have 2: "updateAccount (Some (reparent ''A'' ''A'')) 9 store_abc = (Inl ValidationError, store_abc)"
    by simp
  from t3 d fa fd nr have 3: "validateParent (acct_accounts store_abc) ''A'' (Some ''D'') = Inr ()"
    "fst (updateAccount (Some (reparent ''A'' ''D'')) 9 store_abc)
       = Inr (updateFields (reparent ''A'' ''D'') 9 (acct 1 ''A'' ''1001'' TAsset GAsset))"
    "a_parentAccountKey (updateFields (reparent ''A'' ''D'') 9 (acct 1 ''A'' ''1001'' TAsset GAsset)) = Some ''D''"
    by simp_all
  from t4 l fx have 4: "validateParent chart_loop ''A'' (Some ''X'') = Inr ()"
    by simp
  from r 1 2 d 3 l 4 show ?thesis by simp
qed

section \<open>Properties of the aggregator\<close>

subsection \<open>Account balance\<close>

lemma getAccountBalance_empty:
  "matching_lines data s = [] \<Longrightarrow>
   getAccountBalance data s = Inr \<lparr> ab_balance = 0, ab_debit = 0, ab_credit = 0 \<rparr>"
  by (simp add: getAccountBalance_def matching_lines_def)

lemma getAccountBalance_error_iff:
  "getAccountBalance data s = Inl e \<longleftrightarrow>
     matching_lines data s \<noteq> [] \<and> findByKey (acct_accounts s) (gb_accountKey data) = None \<and> e = PlainError"
  by (auto simp: getAccountBalance_def matching_lines_def Let_def split: option.splits)

text \<open>
  Claim C10. When no unvoided line matches the query, \<open>getAccountBalance\<close> returns the
  zero result whether or not the account exists. It never ends with
  \<open>AccountNotFoundError\<close>: it fails exactly when a line matches and the account is
  absent, and the error is then a plain \<open>Error\<close>.
\<close>

theorem getAccountBalance_unknown_account:
  "(matching_lines data s = [] \<longrightarrow>
      getAccountBalance data s = Inr \<lparr> ab_balance = 0, ab_debit = 0, ab_credit = 0 \<rparr>)
   \<and> getAccountBalance data s \<noteq> Inl AccountNotFoundError
   \<and> ((\<exists>e. getAccountBalance data s = Inl e) \<longleftrightarrow>
        matching_lines data s \<noteq> [] \<and> findByKey (acct_accounts s) (gb_accountKey data) = None)
   \<and> (\<forall>e. getAccountBalance data s = Inl e \<longrightarrow> e = PlainError)"
  using getAccountBalance_empty [of data s] getAccountBalance_error_iff [of data s]
  by auto

theorem getAccountBalance_unknown_account_witness:
  "matching_lines (balance_of ''GHOST'') store1 = []
   \<and> getAccountBalance (balance_of ''GHOST'') store1 = Inr \<lparr> ab_balance = 0, ab_debit = 0, ab_credit = 0 \<rparr>
   \<and> matching_lines (balance_of ''CASH'') store_orphan \<noteq> []
   \<and> findByKey (acct_accounts store_orphan) ''CASH'' = None
   \<and> getAccountBalance (balance_of ''CASH'') store_orphan = Inl PlainError"
proof -
  have a: "matching_lines (balance_of ''GHOST'') store1 = []"
    by (simp add: matching_lines_def balance_of_def store1_def txl_def account_match_def)
  have b: "matching_lines (balance_of ''CASH'') store_orphan \<noteq> []"
    by (simp add: matching_lines_def balance_of_def store_orphan_def store1_def txl_def account_match_def
        in_range_def meta_match_def)
  have c: "findByKey (acct_accounts store_orphan) (gb_accountKey (balance_of ''CASH'')) = None"
    by (simp add: store_orphan_def findByKey_def)
  from a b c getAccountBalance_unknown_account [of "balance_of ''GHOST''" store1]
    getAccountBalance_unknown_account [of "balance_of ''CASH''" store_orphan]
  show ?thesis by (auto simp: balance_of_def)
qed

subsection \<open>Account ledger\<close>

lemma runningBalance_extend [simp]:
  "runningBalance (TransactionLine.extend item (AccountLedgerItem.fields b)) = b"
  by (simp add: TransactionLine.defs AccountLedgerItem.defs)

lemma truncate_extend [simp]:
  "TransactionLine.truncate (TransactionLine.extend item (AccountLedgerItem.fields b)) = item"
  by (cases item) (simp add: TransactionLine.defs AccountLedgerItem.defs)

lemma length_ledgerItems [simp]: "length (ledgerItems account b items) = length items"
  by (induction items arbitrary: b) (auto simp: Let_def)


lemma t_id_truncate [simp]: "t_id (TransactionLine.truncate x) = t_id x"
  by (simp add: TransactionLine.defs)

lemma is_cents_getNetBalance [simp]: "is_cents (getNetBalance d c ty pg)"
  by (simp add: getNetBalance_def)









lemma t_datetime_truncate [simp]: "t_datetime (TransactionLine.truncate x) = t_datetime x"
  by (simp add: TransactionLine.defs)












subsection \<open>Trial balance\<close>

lemma set_insert_sorted: "set (insert_sorted compareFn x xs) = insert x (set xs)"
  by (induction xs) auto

lemma set_Array_sort: "set (Array_sort compareFn xs) = set xs"
  unfolding Array_sort_def by (induction xs) (simp_all add: set_insert_sorted)

lemma length_insert_sorted: "length (insert_sorted compareFn x xs) = Suc (length xs)"
  by (induction xs) auto

lemma length_Array_sort: "length (Array_sort compareFn xs) = length xs"
  unfolding Array_sort_def by (induction xs) (simp_all add: length_insert_sorted)

lemma sum_list_indicator:
  fixes c :: rat
  shows "distinct ks \<Longrightarrow> a \<in> set ks \<Longrightarrow> sum_list (map (\<lambda>k. if a = k then c else 0) ks) = c"
proof (induction ks)
  case Nil
  then show ?case by simp
next
  case (Cons k ks)
  show ?case
  proof (cases "a = k")
    case True
    with Cons.prems have "a \<notin> set ks" by simp
    then have "sum_list (map (\<lambda>k. if a = k then c else 0) ks) = 0"
      by (induction ks) auto
    with True show ?thesis by simp
  next
    case False
    with Cons show ?thesis by simp
  qed
qed

lemma sum_list_grouped:
  fixes f :: "'a \<Rightarrow> rat"
  assumes "distinct ks" and "g ` set xs \<subseteq> set ks"
  shows "sum_list (map (\<lambda>k. sum_list (map f (filter (\<lambda>x. g x = k) xs))) ks) = sum_list (map f xs)"
  using assms(2)
proof (induction xs)
  case Nil
  then show ?case by simp
next
  case (Cons x xs)
  then have gx: "g x \<in> set ks" and rest: "g ` set xs \<subseteq> set ks" by auto
  have "sum_list (map (\<lambda>k. sum_list (map f (filter (\<lambda>x. g x = k) (x # xs)))) ks)
      = sum_list (map (\<lambda>k. (if g x = k then f x else 0) + sum_list (map f (filter (\<lambda>x. g x = k) xs))) ks)"
    by (intro arg_cong [where f = sum_list] map_cong) auto
  also have "\<dots> = sum_list (map (\<lambda>k. if g x = k then f x else 0) ks)
      + sum_list (map (\<lambda>k. sum_list (map f (filter (\<lambda>x. g x = k) xs))) ks)"
    by (rule sum_list_addf)
  also have "\<dots> = f x + sum_list (map f xs)"
    using sum_list_indicator [OF assms(1) gx] Cons.IH [OF rest] by simp
  finally show ?case by simp
qed

lemma sum_list_by_key:
  fixes f :: "'a \<Rightarrow> rat"
  shows "sum_list (map (\<lambda>k. sum_list (map f (filter (\<lambda>x. g x = k) xs))) (remdups (map g xs)))
       = sum_list (map f xs)"
  by (rule sum_list_grouped) simp_all

lemma balanced_total:
  assumes "whole_cents ts" and "balanced_journals ts"
  shows "sum_list (map t_debit ts) = sum_list (map t_credit ts)"
proof -
  have each: "sum_list (map t_debit (filter (\<lambda>t. t_journalId t = j) ts))
            = sum_list (map t_credit (filter (\<lambda>t. t_journalId t = j) ts))"
    if "j \<in> set (remdups (map t_journalId ts))" for j
  proof -
    from assms(1) have "is_cents (sum_list (map t_debit (filter (\<lambda>t. t_journalId t = j) ts)))"
      "is_cents (sum_list (map t_credit (filter (\<lambda>t. t_journalId t = j) ts)))"
      by (auto intro!: is_cents_sum_list simp: whole_cents_def)
    moreover from assms(2) that have "journal_balanced ts j"
      by (auto simp: balanced_journals_def)
    ultimately show ?thesis
      by (simp add: journal_balanced_def round_num_id)
  qed
  have "sum_list (map t_debit ts)
      = sum_list (map (\<lambda>j. sum_list (map t_debit (filter (\<lambda>t. t_journalId t = j) ts))) (remdups (map t_journalId ts)))"
    by (rule sum_list_by_key [symmetric])
  also have "\<dots> = sum_list (map (\<lambda>j. sum_list (map t_credit (filter (\<lambda>t. t_journalId t = j) ts))) (remdups (map t_journalId ts)))"
    by (intro arg_cong [where f = sum_list] map_cong refl each)
  also have "\<dots> = sum_list (map t_credit ts)"
    by (rule sum_list_by_key)
  finally show ?thesis .
qed

lemma trialBalance_loop_totals:
  assumes "\<forall>row \<in> set aggr. accountMap (row_id row) \<noteq> None"
  shows "snd (trialBalance_loop accountMap aggr lines gd gc) =
     (gd + sum_list (map (\<lambda>row. round_num (row_debit row)) aggr),
      gc + sum_list (map (\<lambda>row. round_num (row_credit row)) aggr))"
  using assms
proof (induction aggr arbitrary: lines gd gc)
  case Nil
  then show ?case by simp
next
  case (Cons row aggr)
  then obtain acct where "accountMap (row_id row) = Some acct" by auto
  with Cons show ?case by (simp add: Let_def add.assoc)
qed

lemma row_id_group [simp]: "map row_id (group_by_accountKey ts) = remdups (map t_accountKey ts)"
  by (simp add: group_by_accountKey_def comp_def)

lemma sum_rows_debit:
  "whole_cents ts \<Longrightarrow>
   sum_list (map (\<lambda>row. round_num (row_debit row)) (group_by_accountKey ts)) = sum_list (map t_debit ts)"
proof -
  assume c: "whole_cents ts"
  have "sum_list (map (\<lambda>row. round_num (row_debit row)) (group_by_accountKey ts))
      = sum_list (map (\<lambda>k. round_num (sum_list (map t_debit (filter (\<lambda>t. t_accountKey t = k) ts))))
          (remdups (map t_accountKey ts)))"
    by (simp add: group_by_accountKey_def comp_def)
  also have "\<dots> = sum_list (map (\<lambda>k. sum_list (map t_debit (filter (\<lambda>t. t_accountKey t = k) ts)))
          (remdups (map t_accountKey ts)))"
    using c by (intro arg_cong [where f = sum_list] map_cong refl round_num_id is_cents_sum_list)
      (auto simp: whole_cents_def)
  also have "\<dots> = sum_list (map t_debit ts)"
    by (rule sum_list_by_key)
  finally show ?thesis .
qed

lemma sum_rows_credit:
  "whole_cents ts \<Longrightarrow>
   sum_list (map (\<lambda>row. round_num (row_credit row)) (group_by_accountKey ts)) = sum_list (map t_credit ts)"
proof -
  assume c: "whole_cents ts"
  have "sum_list (map (\<lambda>row. round_num (row_credit row)) (group_by_accountKey ts))
      = sum_list (map (\<lambda>k. round_num (sum_list (map t_credit (filter (\<lambda>t. t_accountKey t = k) ts))))
          (remdups (map t_accountKey ts)))"
    by (simp add: group_by_accountKey_def comp_def)
  also have "\<dots> = sum_list (map (\<lambda>k. sum_list (map t_credit (filter (\<lambda>t. t_accountKey t = k) ts)))
          (remdups (map t_accountKey ts)))"
    using c by (intro arg_cong [where f = sum_list] map_cong refl round_num_id is_cents_sum_list)
      (auto simp: whole_cents_def)
  also have "\<dots> = sum_list (map t_credit ts)"
    by (rule sum_list_by_key)
  finally show ?thesis .
qed

lemma getTrialBalance_totals:
  assumes "accounts_known (acct_accounts s) (lines_in_range from to s)"
  shows "tb_totalDebit (getTrialBalance localeCompare from to now s) =
           round_num (sum_list (map (\<lambda>row. round_num (row_debit row))
             (group_by_accountKey (lines_in_range from to s))))"
    and "tb_totalCredit (getTrialBalance localeCompare from to now s) =
           round_num (sum_list (map (\<lambda>row. round_num (row_credit row))
             (group_by_accountKey (lines_in_range from to s))))"
proof -
  let ?ts = "lines_in_range from to s"
  let ?m = "accountMap_of (acct_accounts s)"
  have known: "\<forall>row \<in> set (group_by_accountKey ?ts). ?m (row_id row) \<noteq> None"
  proof
    fix row assume "row \<in> set (group_by_accountKey ?ts)"
    then have "row_id row \<in> set (map row_id (group_by_accountKey ?ts))"
      by (simp only: set_map) (rule imageI)
    then have "row_id row \<in> set (map t_accountKey ?ts)"
      by (simp only: row_id_group set_remdups)
    with assms show "?m (row_id row) \<noteq> None"
      by (auto simp: accounts_known_def)
  qed
  obtain lines gd gc where l: "trialBalance_loop ?m (group_by_accountKey ?ts) [] 0 0 = (lines, gd, gc)"
    by (cases "trialBalance_loop ?m (group_by_accountKey ?ts) [] 0 0") auto
  from trialBalance_loop_totals [OF known, of "[]" 0 0] l
  have "gd = sum_list (map (\<lambda>row. round_num (row_debit row)) (group_by_accountKey ?ts))"
    "gc = sum_list (map (\<lambda>row. round_num (row_credit row)) (group_by_accountKey ?ts))"
    by simp_all
  with l show "tb_totalDebit (getTrialBalance localeCompare from to now s) =
           round_num (sum_list (map (\<lambda>row. round_num (row_debit row)) (group_by_accountKey ?ts)))"
    and "tb_totalCredit (getTrialBalance localeCompare from to now s) =
           round_num (sum_list (map (\<lambda>row. round_num (row_credit row)) (group_by_accountKey ?ts)))"
    by (simp_all add: getTrialBalance_def lines_in_range_def)
qed

lemma chart1_known:
  "accountMap_of chart1 ''CASH'' \<noteq> None" "accountMap_of chart1 ''LOAN'' \<noteq> None"
  "accountMap_of chart1 ''OPENING_BALANCE_EQUITY'' \<noteq> None"
  "accountMap_of chart1 ''SALES'' \<noteq> None" "accountMap_of chart1 ''RENT'' \<noteq> None"
  by (simp_all add: accountMap_of_def chart1_def acct_def)

lemma round_subcent:
  "round_num (50003 / 500) = 10001 / 100" "round_num (50003 / 1000) = 50"
  "round_num (10001 / 100) = 10001 / 100" "round_num 100 = 100"
  by (simp_all add: round_num_def Math_round_def EPSILON_def floor_eq_iff)

lemma subcent_posted:
  "postJournal subcent_request 7 store_chart
     = (Inr \<lparr> r_journal = hd (acct_journals store_subcent), r_transactions = acct_transactions store_subcent \<rparr>,
        store_subcent)"
  by (simp add: postJournal_def subcent_request_def store_chart_def store_subcent_def line_in_def
      truthy_def or0_def set_add_def round_subcent chart1_def acct_def accountMap_of_def Let_def
      enumerate_eq_zip transactionDoc_def jrnl_def txl_def)

lemma subcent_lines:
  "lines_in_range None None store_subcent = acct_transactions store_subcent"
  by (simp add: lines_in_range_def store_subcent_def txl_def in_range_def)

lemma subcent_known: "accounts_known (acct_accounts store_subcent) (lines_in_range None None store_subcent)"
  unfolding subcent_lines
  using chart1_known by (simp add: accounts_known_def store_subcent_def txl_def)

lemma subcent_balanced: "balanced_journals (lines_in_range None None store_subcent)"
  unfolding subcent_lines
  by (simp add: balanced_journals_def journal_balanced_def store_subcent_def txl_def)

lemma subcent_rows:
  "map (\<lambda>row. round_num (row_debit row)) (group_by_accountKey (lines_in_range None None store_subcent))
     = [10001 / 100, 0, 0]"
  "map (\<lambda>row. round_num (row_credit row)) (group_by_accountKey (lines_in_range None None store_subcent))
     = [0, 50, 50]"
  unfolding subcent_lines
  by (simp_all add: group_by_accountKey_def store_subcent_def txl_def round_subcent)

text \<open>
  Claim C3, amended. Take the unvoided lines in the queried range. When every debit and
  credit among them is a whole number of cents, every one of them is on an account of
  the chart, and for every journal the rounded sum of the debits of its lines among them
  equals the rounded sum of their credits, then \<open>getTrialBalance\<close> returns a total
  debit equal to its total credit, whatever the collation that orders its lines. Without
  the restriction to whole cents the equality fails, as the counterexample after the
  witness shows.
\<close>

theorem getTrialBalance_totals_equal:
  assumes "whole_cents (lines_in_range from to s)"
    and "accounts_known (acct_accounts s) (lines_in_range from to s)"
    and "balanced_journals (lines_in_range from to s)"
  shows "tb_totalDebit (getTrialBalance localeCompare from to now s)
           = tb_totalCredit (getTrialBalance localeCompare from to now s)"
proof -
  let ?ts = "lines_in_range from to s"
  let ?m = "accountMap_of (acct_accounts s)"
  have known: "\<forall>row \<in> set (group_by_accountKey ?ts). ?m (row_id row) \<noteq> None"
  proof
    fix row assume "row \<in> set (group_by_accountKey ?ts)"
    then have "row_id row \<in> set (map row_id (group_by_accountKey ?ts))"
      by (simp only: set_map) (rule imageI)
    then have "row_id row \<in> set (map t_accountKey ?ts)"
      by (simp only: row_id_group set_remdups)
    with assms(2) show "?m (row_id row) \<noteq> None"
      by (auto simp: accounts_known_def)
  qed
  obtain lines gd gc where l: "trialBalance_loop ?m (group_by_accountKey ?ts) [] 0 0 = (lines, gd, gc)"
    by (cases "trialBalance_loop ?m (group_by_accountKey ?ts) [] 0 0") auto
  from trialBalance_loop_totals [OF known, of "[]" 0 0] l
  have "gd = sum_list (map t_debit ?ts)" "gc = sum_list (map t_credit ?ts)"
    by (simp_all add: sum_rows_debit [OF assms(1)] sum_rows_credit [OF assms(1)])
  with balanced_total [OF assms(1,3)] have "gd = gc" by simp
  with l show ?thesis
    by (simp add: getTrialBalance_def lines_in_range_def)
qed

theorem getTrialBalance_totals_equal_witness:
  "whole_cents (lines_in_range None None store2)
   \<and> accounts_known (acct_accounts store2) (lines_in_range None None store2)
   \<and> balanced_journals (lines_in_range None None store2)
   \<and> tb_totalDebit (getTrialBalance code_order None None 9 store2)
       = tb_totalCredit (getTrialBalance code_order None None 9 store2)"
proof -
  have l: "lines_in_range None None store2 = acct_transactions store2"
    by (simp add: lines_in_range_def store2_def txl_def in_range_def)
  have w: "whole_cents (lines_in_range None None store2)"
    unfolding l by (simp add: whole_cents_def store2_def txl_def is_cents_def)
  have k: "accounts_known (acct_accounts store2) (lines_in_range None None store2)"
    unfolding l using chart1_known by (simp add: accounts_known_def store2_def txl_def)
  have b: "balanced_journals (lines_in_range None None store2)"
    unfolding l by (simp add: balanced_journals_def journal_balanced_def store2_def txl_def)
  from getTrialBalance_totals_equal [OF w k b] w k b show ?thesis by simp
qed

text \<open>
  Counterexample to claim C3 as stated: a balanced ledger with amounts below the cent. The request
  debits 100.006 and credits 50.003 twice; its totals are equal, so \<open>postJournal\<close>
  accepts it. The trial balance rounds each account's sums before adding them up: the
  debit total is 100.01 and the credit total is 100.00.
\<close>

theorem getTrialBalance_subcent_counterexample:
  "postJournal subcent_request 7 store_chart
     = (Inr \<lparr> r_journal = hd (acct_journals store_subcent), r_transactions = acct_transactions store_subcent \<rparr>,
        store_subcent)
   \<and> balanced_journals (lines_in_range None None store_subcent)
   \<and> tb_totalDebit (getTrialBalance code_order None None 9 store_subcent) = 10001 / 100
   \<and> tb_totalCredit (getTrialBalance code_order None None 9 store_subcent) = 100
   \<and> tb_totalDebit (getTrialBalance code_order None None 9 store_subcent)
       \<noteq> tb_totalCredit (getTrialBalance code_order None None 9 store_subcent)"
proof -
  have d: "tb_totalDebit (getTrialBalance code_order None None 9 store_subcent) = 10001 / 100"
    unfolding getTrialBalance_totals(1) [OF subcent_known] subcent_rows
    by (simp add: round_subcent)
  have c: "tb_totalCredit (getTrialBalance code_order None None 9 store_subcent) = 100"
    unfolding getTrialBalance_totals(2) [OF subcent_known] subcent_rows
    by (simp add: round_subcent)
  from d c subcent_posted subcent_balanced show ?thesis by simp
qed

subsection \<open>Balance sheet\<close>












section \<open>Properties of the opening-balance orchestrator\<close>









lemma findByKey_None_iff: "findByKey accounts k = None \<longleftrightarrow> k \<notin> a_key ` set accounts"
  by (auto simp: findByKey_def find_None_iff)



lemma default_key [simp]: "a_key (DEFAULT_OPENING_BALANCE_ACCOUNT i now) = OFFSET_KEY"
  by (simp add: DEFAULT_OPENING_BALANCE_ACCOUNT_def OFFSET_KEY_def)

lemma default_active [simp]: "a_isActive (DEFAULT_OPENING_BALANCE_ACCOUNT i now)"
  by (simp add: DEFAULT_OPENING_BALANCE_ACCOUNT_def)

lemma ensure_found:
  "findByKey (acct_accounts s) OFFSET_KEY = Some existing \<Longrightarrow>
   ensureOpeningBalanceOffsetAccount None now s = (Inr existing, s)"
  by (simp add: ensureOpeningBalanceOffsetAccount_def truthy_def)

lemma ensure_created:
  "findByKey (acct_accounts s) OFFSET_KEY = None \<Longrightarrow>
   ensureOpeningBalanceOffsetAccount None now s =
     (Inr (DEFAULT_OPENING_BALANCE_ACCOUNT (next_oid s) now),
      s \<lparr> acct_accounts := acct_accounts s @ [DEFAULT_OPENING_BALANCE_ACCOUNT (next_oid s) now],
         next_oid := Suc (next_oid s) \<rparr>)"
  by (simp add: ensureOpeningBalanceOffsetAccount_def truthy_def Let_def)


lemma after_offset_journals [simp]: "acct_journals (after_offset now s) = acct_journals s"
  by (cases "findByKey (acct_accounts s) OFFSET_KEY")
     (simp_all add: after_offset_def ensure_created ensure_found)

lemma after_offset_transactions [simp]: "acct_transactions (after_offset now s) = acct_transactions s"
  by (cases "findByKey (acct_accounts s) OFFSET_KEY")
     (simp_all add: after_offset_def ensure_created ensure_found)















end
